theory Spec2Isabelle
  imports Complex_Main "HOL-Library.Word"
begin

section \<open>JavaScript strings\<close>

text \<open>
  A JavaScript string is a sequence of UTF-16 code units, and \<open>length\<close> counts code
  units. \<open>ascii\<close> embeds an ASCII literal, so that \<open>ascii ''today''\<close> is the string
  \<^verbatim>\<open>"today"\<close>.
\<close>

type_synonym jschar = "16 word"
type_synonym jsstring = "jschar list"

definition ascii :: "string \<Rightarrow> jsstring" where
  "ascii s = map (\<lambda>c. of_nat (of_char c)) s"

text \<open>
  ECMA-262 WhiteSpace and LineTerminator: the characters that
  \<^verbatim>\<open>String.prototype.trim\<close> strips and that the regular expression class
  \<^verbatim>\<open>\s\<close> matches (TAB, LF, VT, FF, CR, SP, NBSP, U+1680, U+2000 to U+200A, LS, PS,
  U+202F, U+205F, U+3000, BOM).
\<close>

definition isWhiteSpace :: "jschar \<Rightarrow> bool" where
  "isWhiteSpace c =
     (c = 0x09 \<or> c = 0x0A \<or> c = 0x0B \<or> c = 0x0C \<or> c = 0x0D \<or> c = 0x20 \<or> c = 0xA0
      \<or> c = 0x1680 \<or> (0x2000 \<le> c \<and> c \<le> 0x200A) \<or> c = 0x2028 \<or> c = 0x2029
      \<or> c = 0x202F \<or> c = 0x205F \<or> c = 0x3000 \<or> c = 0xFEFF)"

text \<open>\<^verbatim>\<open>s.trim()\<close>\<close>

definition trim :: "jsstring \<Rightarrow> jsstring" where
  "trim s = rev (dropWhile isWhiteSpace (rev (dropWhile isWhiteSpace s)))"

text \<open>\<^verbatim>\<open>s.replace(/\s+/g, " ")\<close>: every maximal run of white space becomes one space.\<close>

function replaceWhiteSpaceRuns :: "jsstring \<Rightarrow> jsstring" where
  "replaceWhiteSpaceRuns [] = []"
| "replaceWhiteSpaceRuns (c # cs) =
     (if isWhiteSpace c then 0x20 # replaceWhiteSpaceRuns (dropWhile isWhiteSpace cs)
      else c # replaceWhiteSpaceRuns cs)"
  by pat_completeness auto
termination
  by (relation "measure length") (auto simp: less_Suc_eq_le length_dropWhile_le)

text \<open>\<^verbatim>\<open>s.startsWith(q)\<close> and \<^verbatim>\<open>s.includes(q)\<close> (\<open>includes\<close> is reserved in Isabelle)\<close>

fun startsWith :: "jsstring \<Rightarrow> jsstring \<Rightarrow> bool" where
  "startsWith s [] = True"
| "startsWith [] (q # qs) = False"
| "startsWith (c # cs) (q # qs) = (c = q \<and> startsWith cs qs)"

fun includesStr :: "jsstring \<Rightarrow> jsstring \<Rightarrow> bool" where
  "includesStr [] q = (q = [])"
| "includesStr (c # cs) q = (startsWith (c # cs) q \<or> includesStr cs q)"

section \<open>Tasks\<close>

text \<open>
  The type \<^verbatim>\<open>Todo\<close> of \<^verbatim>\<open>@/types/todo\<close>. The two timestamps are columns of type
  \<^verbatim>\<open>timestamp with time zone\<close>, so their text always parses; the record holds the
  value in milliseconds of the Date that \<^verbatim>\<open>new Date(s)\<close> builds from the stored text,
  on the scale of the section on dates below, and \<open>None\<close> for a due date that is
  \<^verbatim>\<open>null\<close> or missing. Differences and comparisons of two such values are those of
  \<^verbatim>\<open>getTime()\<close>. A category that is \<^verbatim>\<open>null\<close> or missing is \<open>None\<close>.
\<close>

datatype Priority = high | medium | low

record Todo =
  todo_id :: jsstring
  user_id :: jsstring
  title :: jsstring
  description :: "jsstring option"
  created_date :: int
  due_date :: "int option"
  priority :: "Priority option"
  category :: "jsstring list option"
  completed :: bool

section \<open>Filter and sort engine\<close>

datatype StatusFilter = StatusAll | StatusCompleted | StatusPending | StatusWaiting
datatype PriorityFilter = PriorityAll | PriorityIs Priority
datatype SortBy = SortCreated | SortDue | SortPriority | SortTitle
datatype SortOrder = asc | desc

text \<open>The table \<^verbatim>\<open>priorityOrder\<close>, indexed by \<^verbatim>\<open>a.priority || "null"\<close>.\<close>

fun priorityOrder :: "Priority option \<Rightarrow> int" where
  "priorityOrder (Some high) = 3"
| "priorityOrder (Some medium) = 2"
| "priorityOrder (Some low) = 1"
| "priorityOrder None = 0"

text \<open>
  The comparator handed to \<^verbatim>\<open>filtered.sort\<close>. \<open>localeCompare\<close> stands for
  \<^verbatim>\<open>a.title.localeCompare(b.title, "ko")\<close>, which the platform supplies.
\<close>

definition comparison :: "(jsstring \<Rightarrow> jsstring \<Rightarrow> int) \<Rightarrow> SortBy \<Rightarrow> Todo \<Rightarrow> Todo \<Rightarrow> int" where
  "comparison localeCompare sortBy a b =
     (case sortBy of
        SortCreated \<Rightarrow> created_date a - created_date b
      | SortDue \<Rightarrow>
          (if due_date a = None \<and> due_date b = None then 0
           else if due_date a = None then 1
           else if due_date b = None then - 1
           else the (due_date a) - the (due_date b))
      | SortPriority \<Rightarrow> priorityOrder (priority a) - priorityOrder (priority b)
      | SortTitle \<Rightarrow> localeCompare (title a) (title b))"

definition compareTodos ::
  "(jsstring \<Rightarrow> jsstring \<Rightarrow> int) \<Rightarrow> SortBy \<Rightarrow> SortOrder \<Rightarrow> Todo \<Rightarrow> Todo \<Rightarrow> int" where
  "compareTodos localeCompare sortBy sortOrder a b =
     (if sortOrder = desc then - comparison localeCompare sortBy a b
      else comparison localeCompare sortBy a b)"

text \<open>
  \<^verbatim>\<open>Array.prototype.sort\<close> is stable, and for a comparator that is a total preorder
  its result is the one stable sorted arrangement of the array. Stable insertion
  computes that arrangement: an element goes in front of the first element it does not
  compare greater than.
\<close>

fun insertSorted :: "('a \<Rightarrow> 'a \<Rightarrow> int) \<Rightarrow> 'a \<Rightarrow> 'a list \<Rightarrow> 'a list" where
  "insertSorted cmp x [] = [x]"
| "insertSorted cmp x (y # ys) =
     (if cmp x y \<le> 0 then x # y # ys else y # insertSorted cmp x ys)"

fun sortWith :: "('a \<Rightarrow> 'a \<Rightarrow> int) \<Rightarrow> 'a list \<Rightarrow> 'a list" where
  "sortWith cmp [] = []"
| "sortWith cmp (x # xs) = insertSorted cmp x (sortWith cmp xs)"

text \<open>
  \<^verbatim>\<open>filteredAndSortedTodos\<close> of the main page. \<open>toLowerCase\<close> stands for
  \<^verbatim>\<open>String.prototype.toLowerCase\<close>.
\<close>

definition searchFilter :: "(jsstring \<Rightarrow> jsstring) \<Rightarrow> jsstring \<Rightarrow> Todo list \<Rightarrow> Todo list" where
  "searchFilter toLowerCase searchQuery filtered =
     (if trim searchQuery \<noteq> [] then
        (let query = toLowerCase searchQuery
         in filter (\<lambda>todo. includesStr (toLowerCase (title todo)) query) filtered)
      else filtered)"

definition statusFilterStep :: "StatusFilter \<Rightarrow> Todo list \<Rightarrow> Todo list" where
  "statusFilterStep statusFilter filtered =
     (if statusFilter = StatusCompleted then filter (\<lambda>todo. completed todo) filtered
      else if statusFilter = StatusPending then filter (\<lambda>todo. \<not> completed todo) filtered
      else if statusFilter = StatusWaiting then
        filter (\<lambda>todo. \<not> completed todo \<and> due_date todo = None) filtered
      else filtered)"

definition priorityFilterStep :: "PriorityFilter \<Rightarrow> Todo list \<Rightarrow> Todo list" where
  "priorityFilterStep priorityFilter filtered =
     (case priorityFilter of
        PriorityAll \<Rightarrow> filtered
      | PriorityIs p \<Rightarrow> filter (\<lambda>todo. priority todo = Some p) filtered)"

definition filteredAndSortedTodos ::
  "(jsstring \<Rightarrow> jsstring) \<Rightarrow> (jsstring \<Rightarrow> jsstring \<Rightarrow> int) \<Rightarrow> Todo list \<Rightarrow> jsstring \<Rightarrow>
   StatusFilter \<Rightarrow> PriorityFilter \<Rightarrow> SortBy \<Rightarrow> SortOrder \<Rightarrow> Todo list" where
  "filteredAndSortedTodos toLowerCase localeCompare todos searchQuery statusFilter
       priorityFilter sortBy sortOrder =
     sortWith (compareTodos localeCompare sortBy sortOrder)
       (priorityFilterStep priorityFilter
         (statusFilterStep statusFilter
           (searchFilter toLowerCase searchQuery todos)))"

section \<open>Dates\<close>

text \<open>
  A \<^verbatim>\<open>Date\<close> is represented by its local time value in milliseconds
  (\<open>LocalTime(t)\<close> of ECMA-262), for a runtime whose zone has a fixed offset, as
  Asia/Seoul has. \<^verbatim>\<open>koreaTime\<close>, the Date that the code builds from
  \<^verbatim>\<open>now.toLocaleString("en-US", { timeZone: "Asia/Seoul" })\<close>, has the Seoul wall
  clock as its local time and is an input here. On these values
  \<^verbatim>\<open>setHours(h, m, s, ms)\<close> keeps the day and replaces the time within the day,
  \<^verbatim>\<open>getDay()\<close> is \<open>WeekDay\<close> (day 0 of the epoch was a Thursday), and
  \<^verbatim>\<open>d.setDate(d.getDate() + k)\<close> moves the day number by \<open>k\<close>.
\<close>

definition msPerDay :: int where
  "msPerDay = 86400000"

definition setHours :: "int \<Rightarrow> int \<Rightarrow> int \<Rightarrow> int \<Rightarrow> int \<Rightarrow> int" where
  "setHours t h m s ms = (t div msPerDay) * msPerDay + (h * 3600000 + m * 60000 + s * 1000 + ms)"

definition getDay :: "int \<Rightarrow> int" where
  "getDay t = (t div msPerDay + 4) mod 7"

definition setDateRelative :: "int \<Rightarrow> int \<Rightarrow> int" where
  "setDateRelative t k = t + k * msPerDay"

section \<open>Temporal window of the analysis\<close>

datatype Period = today | week

text \<open>The boundaries computed in \<^verbatim>\<open>handleAnalyzeTodos\<close>; \<open>koreaTime\<close> is the Date before
  its \<^verbatim>\<open>setHours(0, 0, 0, 0)\<close>.\<close>

definition todayWindow :: "int \<Rightarrow> int \<times> int" where
  "todayWindow koreaTime =
     (let koreaTime0 = setHours koreaTime 0 0 0 0;
          todayStart = koreaTime0;
          todayEnd = setHours koreaTime0 23 59 59 999
      in (todayStart, todayEnd))"

definition weekWindow :: "int \<Rightarrow> int \<times> int" where
  "weekWindow koreaTime =
     (let koreaTime0 = setHours koreaTime 0 0 0 0;
          dayOfWeek = getDay koreaTime0;
          monday = setHours
            (setDateRelative koreaTime0 (- (if dayOfWeek = 0 then 6 else dayOfWeek - 1))) 0 0 0 0;
          sunday = setHours (setDateRelative monday 6) 23 59 59 999
      in (monday, sunday))"

text \<open>The callback of \<^verbatim>\<open>todos.filter\<close>, the same in both branches up to the names of the
  boundaries.\<close>

definition inWindow :: "int \<times> int \<Rightarrow> Todo \<Rightarrow> bool" where
  "inWindow w todo =
     (let isCreated = (fst w \<le> created_date todo \<and> created_date todo \<le> snd w)
      in case due_date todo of
           Some dueDate \<Rightarrow> isCreated \<or> (fst w \<le> dueDate \<and> dueDate \<le> snd w)
         | None \<Rightarrow> isCreated)"

definition filteredTodos :: "Period \<Rightarrow> int \<Rightarrow> Todo list \<Rightarrow> Todo list" where
  "filteredTodos period koreaTime todos =
     (if period = today then filter (inWindow (todayWindow koreaTime)) todos
      else filter (inWindow (weekWindow koreaTime)) todos)"

section \<open>Completion rate\<close>

text \<open>\<^verbatim>\<open>calculateCompletionRate\<close> of the main page. A JavaScript number is modelled as a
  real: the two roundings of the quotient and of the product are not modelled.\<close>

definition calculateCompletionRate :: "Todo list \<Rightarrow> real" where
  "calculateCompletionRate todosList =
     (if length todosList = 0 then 0
      else (let completedCount = length (filter completed todosList)
            in (real completedCount / real (length todosList)) * 100))"

section \<open>Analysis endpoint\<close>

datatype ApiError =
    MissingApiKey | UnparsableBody | InvalidTodos | InvalidPeriod
  | NotAString | EmptyInput | TooShort | TooLong nat

datatype 'a RequestBody = Unparsable | JsonNull | JsonObject 'a

record AnalyzeRequest =
  body_todos :: "Todo list option"
  body_period :: "jsstring option"

record Analysis =
  summary :: jsstring
  urgentTasks :: "jsstring list"
  insights :: "jsstring list"
  recommendations :: "jsstring list"

record CategoryStat =
  stat_total :: nat
  stat_completed :: nat

text \<open>
  \<^verbatim>\<open>categoryStats\<close> is a plain object used as a dictionary, so a label that names a
  property of \<^verbatim>\<open>Object.prototype\<close> is found there before any entry exists: the test
  \<^verbatim>\<open>!categoryStats[cat]\<close> is false, the increments go to the inherited object, and
  \<^verbatim>\<open>categoryStats\<close> gets no entry. The map holds the entries of the object itself.
\<close>

definition objectPrototypeKeys :: "jsstring list" where
  "objectPrototypeKeys = map ascii
     [''constructor'', ''__defineGetter__'', ''__defineSetter__'', ''hasOwnProperty'',
      ''__lookupGetter__'', ''__lookupSetter__'', ''isPrototypeOf'', ''propertyIsEnumerable'',
      ''toString'', ''valueOf'', ''__proto__'', ''toLocaleString'']"

definition countCategory ::
  "bool \<Rightarrow> jsstring \<Rightarrow> (jsstring \<rightharpoonup> CategoryStat) \<Rightarrow> (jsstring \<rightharpoonup> CategoryStat)" where
  "countCategory isCompleted cat stats =
     (if cat \<in> set objectPrototypeKeys then stats
      else
        (let entry = (case stats cat of
                        None \<Rightarrow> \<lparr>stat_total = 0, stat_completed = 0\<rparr>
                      | Some e \<Rightarrow> e);
             entry1 = entry\<lparr>stat_total := stat_total entry + 1\<rparr>;
             entry2 = (if isCompleted
                       then entry1\<lparr>stat_completed := stat_completed entry1 + 1\<rparr>
                       else entry1)
         in stats(cat \<mapsto> entry2)))"

text \<open>The callback of the outer \<^verbatim>\<open>todos.forEach\<close>, then the loop itself.\<close>

definition categoryStep :: "Todo \<Rightarrow> (jsstring \<rightharpoonup> CategoryStat) \<Rightarrow> (jsstring \<rightharpoonup> CategoryStat)" where
  "categoryStep todo stats =
     (case category todo of
        None \<Rightarrow> stats
      | Some cats \<Rightarrow> fold (countCategory (completed todo)) cats stats)"

definition categoryStats :: "Todo list \<Rightarrow> (jsstring \<rightharpoonup> CategoryStat)" where
  "categoryStats todos = fold categoryStep todos Map.empty"

text \<open>
  Reading the counters of a label, 0 where the object has no entry, and the number of
  times a task lists a label.
\<close>

definition totalOf :: "(jsstring \<rightharpoonup> CategoryStat) \<Rightarrow> jsstring \<Rightarrow> nat" where
  "totalOf stats cat = (case stats cat of None \<Rightarrow> 0 | Some entry \<Rightarrow> stat_total entry)"

definition completedOf :: "(jsstring \<rightharpoonup> CategoryStat) \<Rightarrow> jsstring \<Rightarrow> nat" where
  "completedOf stats cat = (case stats cat of None \<Rightarrow> 0 | Some entry \<Rightarrow> stat_completed entry)"

definition occurrences :: "jsstring \<Rightarrow> Todo \<Rightarrow> nat" where
  "occurrences cat todo = (case category todo of None \<Rightarrow> 0 | Some cats \<Rightarrow> count_list cats cat)"

text \<open>The statistics that the claims are about; the prompt carries further aggregates
  (per priority, deadlines, hours, weekdays), computed from the same array.\<close>

record Statistics =
  totalTodos :: nat
  completedTodos :: nat
  completionRate :: real
  categoryStatistics :: "jsstring \<rightharpoonup> CategoryStat"

definition statistics :: "Todo list \<Rightarrow> Statistics" where
  "statistics todos =
     (let total = length todos;
          completedCount = length (filter completed todos)
      in \<lparr>totalTodos = total,
          completedTodos = completedCount,
          completionRate = (if total > 0 then (real completedCount / real total) * 100 else 0),
          categoryStatistics = categoryStats todos\<rparr>)"

text \<open>The three literals of the empty-state response, as UTF-16 code units.\<close>

definition emptySummaryToday :: jsstring where
  "emptySummaryToday =
     [0xC624, 0xB298, 0x0020, 0xB4F1, 0xB85D, 0xB41C, 0x0020, 0xD560, 0x0020, 0xC77C, 0xC774,
      0x0020, 0xC5C6, 0xC2B5, 0xB2C8, 0xB2E4, 0x002E]"

definition emptySummaryWeek :: jsstring where
  "emptySummaryWeek =
     [0xC774, 0xBC88, 0x0020, 0xC8FC, 0x0020, 0xB4F1, 0xB85D, 0xB41C, 0x0020, 0xD560, 0x0020,
      0xC77C, 0xC774, 0x0020, 0xC5C6, 0xC2B5, 0xB2C8, 0xB2E4, 0x002E]"

definition emptyInsight :: jsstring where
  "emptyInsight =
     [0xD560, 0x0020, 0xC77C, 0xC744, 0x0020, 0xCD94, 0xAC00, 0xD558, 0xC5EC, 0x0020, 0xC2DC,
      0xC791, 0xD574, 0xBCF4, 0xC138, 0xC694, 0x0021]"

text \<open>
  The handler \<^verbatim>\<open>POST\<close> of \<^verbatim>\<open>/api/ai/analyze-todos\<close> up to its call of the generative
  service: it answers by itself (\<open>ErrorResponse\<close>, \<open>JsonResponse\<close>, each with its
  status), or it goes on to \<^verbatim>\<open>generateObject\<close> with the statistics in the prompt
  (\<open>GenerateObject\<close>). Destructuring a \<^verbatim>\<open>null\<close> body throws, and the
  \<^verbatim>\<open>catch\<close> block answers 500.
\<close>

datatype AnalyzeOutcome =
    ErrorResponse ApiError nat
  | UncaughtTypeError nat
  | JsonResponse Analysis nat
  | GenerateObject Period Statistics

definition POST_analyze_todos ::
  "jsstring option \<Rightarrow> AnalyzeRequest RequestBody \<Rightarrow> AnalyzeOutcome" where
  "POST_analyze_todos apiKey body =
     (if apiKey = None \<or> apiKey = Some [] then ErrorResponse MissingApiKey 500
      else case body of
        Unparsable \<Rightarrow> ErrorResponse UnparsableBody 400
      | JsonNull \<Rightarrow> UncaughtTypeError 500
      | JsonObject req \<Rightarrow>
          (case body_todos req of
             None \<Rightarrow> ErrorResponse InvalidTodos 400
           | Some todos \<Rightarrow>
               if body_period req \<noteq> Some (ascii ''today'') \<and> body_period req \<noteq> Some (ascii ''week'')
               then ErrorResponse InvalidPeriod 400
               else if length todos = 0 then
                 JsonResponse
                   \<lparr>summary = (if body_period req = Some (ascii ''today'')
                               then emptySummaryToday else emptySummaryWeek),
                    urgentTasks = [],
                    insights = [emptyInsight],
                    recommendations = []\<rparr> 200
               else GenerateObject
                      (if body_period req = Some (ascii ''today'') then today else week)
                      (statistics todos)))"

section \<open>Extraction endpoint\<close>

datatype InputValue = JSString jsstring | NotString

text \<open>
  The handler \<^verbatim>\<open>POST\<close> of \<^verbatim>\<open>/api/ai/generate-todo\<close> up to its call of the generative
  service: an error with its status, or the normalised text \<^verbatim>\<open>processedInput\<close> that
  goes into the prompt.
\<close>

datatype GenerateOutcome =
    Rejected ApiError nat
  | DestructureTypeError nat
  | Proceed jsstring

definition POST_generate_todo :: "jsstring option \<Rightarrow> InputValue RequestBody \<Rightarrow> GenerateOutcome" where
  "POST_generate_todo apiKey body =
     (if apiKey = None \<or> apiKey = Some [] then Rejected MissingApiKey 500
      else case body of
        Unparsable \<Rightarrow> Rejected UnparsableBody 400
      | JsonNull \<Rightarrow> DestructureTypeError 500
      | JsonObject inputValue \<Rightarrow>
          (case inputValue of
             NotString \<Rightarrow> Rejected NotAString 400
           | JSString input \<Rightarrow>
               if input = [] then Rejected NotAString 400
               else
                 (let trimmedInput = trim input;
                      normalizedInput = replaceWhiteSpaceRuns trimmedInput
                  in if length normalizedInput = 0 then Rejected EmptyInput 400
                     else if length normalizedInput < 2 then Rejected TooShort 400
                     else if length normalizedInput > 500
                       then Rejected (TooLong (length normalizedInput)) 400
                     else Proceed normalizedInput)))"

subsection \<open>Normalisation in the words of the specification\<close>

text \<open>
  The specification describes the normalisation as collapsing runs of white space to a
  single space and trimming the ends: the words of the input, joined by single spaces.
  \<open>splitAtWhiteSpace\<close> cuts the text at every white space character, \<open>wordsOf\<close> keeps the
  pieces that are not empty, and \<open>joinWords\<close> puts one space between them. The source
  has no such functions; they are what \<open>replaceWhiteSpaceRuns\<close> after \<open>trim\<close> is
  compared with.
\<close>

fun splitAtWhiteSpace :: "jsstring \<Rightarrow> jsstring list" where
  "splitAtWhiteSpace [] = [[]]"
| "splitAtWhiteSpace (c # cs) =
     (if isWhiteSpace c then [] # splitAtWhiteSpace cs
      else (case splitAtWhiteSpace cs of
              [] \<Rightarrow> [[c]]
            | w # ws \<Rightarrow> (c # w) # ws))"

definition wordsOf :: "jsstring \<Rightarrow> jsstring list" where
  "wordsOf s = filter (\<lambda>w. w \<noteq> []) (splitAtWhiteSpace s)"

fun joinWords :: "jsstring list \<Rightarrow> jsstring" where
  "joinWords [] = []"
| "joinWords [w] = w"
| "joinWords (w # v # ws) = w @ 0x20 # joinWords (v # ws)"

subsection \<open>Post-processing of the due date\<close>







section \<open>Sample data\<close>

text \<open>The two tasks of the scenario of the filter and sort engine, and two tasks that
  differ in having a due date.\<close>

definition taskA :: Todo where
  "taskA = \<lparr>todo_id = ascii ''1'', user_id = ascii ''u'', title = ascii ''A'',
     description = None, created_date = 1000, due_date = None, priority = Some high,
     category = None, completed = False\<rparr>"

definition taskB :: Todo where
  "taskB = \<lparr>todo_id = ascii ''2'', user_id = ascii ''u'', title = ascii ''B'',
     description = None, created_date = 2000, due_date = None, priority = Some low,
     category = None, completed = True\<rparr>"

definition dueTask :: Todo where
  "dueTask = \<lparr>todo_id = ascii ''3'', user_id = ascii ''u'', title = ascii ''report'',
     description = None, created_date = 5000, due_date = Some 1793788200000, priority = None,
     category = None, completed = False\<rparr>"

definition noDueTask :: Todo where
  "noDueTask = \<lparr>todo_id = ascii ''4'', user_id = ascii ''u'', title = ascii ''walk'',
     description = None, created_date = 6000, due_date = None, priority = None,
     category = None, completed = False\<rparr>"

text \<open>The two category labels of the scenario (work, U+C5C5 U+BB34, and personal,
  U+AC1C U+C778) as code units, a completed task that lists both, and a completed task
  that lists the first one twice.\<close>

definition categoryWork :: jsstring where
  "categoryWork = [0xC5C5, 0xBB34]"

definition categoryPersonal :: jsstring where
  "categoryPersonal = [0xAC1C, 0xC778]"

definition twoCategoryTask :: Todo where
  "twoCategoryTask = \<lparr>todo_id = ascii ''5'', user_id = ascii ''u'', title = ascii ''plan'',
     description = None, created_date = 7000, due_date = None, priority = None,
     category = Some [categoryWork, categoryPersonal], completed = True\<rparr>"

definition duplicateTask :: Todo where
  "duplicateTask = \<lparr>todo_id = ascii ''6'', user_id = ascii ''u'', title = ascii ''plan'',
     description = None, created_date = 7000, due_date = None, priority = None,
     category = Some [categoryWork, categoryWork], completed = True\<rparr>"


text \<open>\<^verbatim>\<open>toLowerCase\<close> on texts whose letters are ASCII.\<close>

definition asciiLower :: "jsstring \<Rightarrow> jsstring" where
  "asciiLower s = map (\<lambda>c. if 0x41 \<le> c \<and> c \<le> 0x5A then c + 0x20 else c) s"






section \<open>Lemmas on strings\<close>

lemma startsWith_iff: "startsWith s q \<longleftrightarrow> (\<exists>ss. s = q @ ss)"
  by (induction s q rule: startsWith.induct) auto

lemma includesStr_iff: "includesStr s q \<longleftrightarrow> (\<exists>ps ss. s = ps @ q @ ss)"
proof (induction s)
  case Nil
  then show ?case by auto
next
  case (Cons c cs)
  show ?case
  proof
    assume "includesStr (c # cs) q"
    then consider "startsWith (c # cs) q" | "includesStr cs q" by auto
    then show "\<exists>ps ss. c # cs = ps @ q @ ss"
    proof cases
      case 1
      then obtain ss where "c # cs = q @ ss" using startsWith_iff by blast
      then have "c # cs = [] @ q @ ss" by simp
      then show ?thesis by blast
    next
      case 2
      then obtain ps ss where "cs = ps @ q @ ss" using Cons.IH by blast
      then have "c # cs = (c # ps) @ q @ ss" by simp
      then show ?thesis by blast
    qed
  next
    assume "\<exists>ps ss. c # cs = ps @ q @ ss"
    then obtain ps ss where eq: "c # cs = ps @ q @ ss" by blast
    show "includesStr (c # cs) q"
    proof (cases ps)
      case Nil
      with eq have "startsWith (c # cs) q" using startsWith_iff by auto
      then show ?thesis by simp
    next
      case (Cons p ps')
      with eq have "cs = ps' @ q @ ss" by simp
      then have "includesStr cs q" using Cons.IH by blast
      then show ?thesis by simp
    qed
  qed
qed

lemma dropWhile_all_iff: "(\<forall>x \<in> set (dropWhile P q). P x) \<longleftrightarrow> dropWhile P q = []"
proof
  assume all: "\<forall>x \<in> set (dropWhile P q). P x"
  show "dropWhile P q = []"
  proof (rule ccontr)
    assume ne: "dropWhile P q \<noteq> []"
    then have "\<not> P (hd (dropWhile P q))" by (rule hd_dropWhile)
    moreover from ne have "hd (dropWhile P q) \<in> set (dropWhile P q)" by simp
    ultimately show False using all by blast
  qed
next
  assume "dropWhile P q = []"
  then show "\<forall>x \<in> set (dropWhile P q). P x" by (simp del: dropWhile_eq_Nil_conv)
qed

lemma trim_empty_iff: "trim q = [] \<longleftrightarrow> (\<forall>c \<in> set q. isWhiteSpace c)"
proof -
  have "trim q = [] \<longleftrightarrow> (\<forall>x \<in> set (dropWhile isWhiteSpace q). isWhiteSpace x)"
    by (simp add: trim_def dropWhile_eq_Nil_conv)
  also have "\<dots> \<longleftrightarrow> dropWhile isWhiteSpace q = []" by (rule dropWhile_all_iff)
  also have "\<dots> \<longleftrightarrow> (\<forall>c \<in> set q. isWhiteSpace c)" by (simp add: dropWhile_eq_Nil_conv)
  finally show ?thesis .
qed

section \<open>Lemmas on sorting\<close>

lemma set_insertSorted: "set (insertSorted cmp x xs) = insert x (set xs)"
  by (induction xs) auto

lemma set_sortWith: "set (sortWith cmp xs) = set xs"
  by (induction xs) (auto simp: set_insertSorted)

lemma length_insertSorted: "length (insertSorted cmp x xs) = Suc (length xs)"
  by (induction xs) auto

lemma length_sortWith: "length (sortWith cmp xs) = length xs"
  by (induction xs) (auto simp: length_insertSorted)

lemma sorted_wrt_insertSorted:
  assumes total: "\<And>a b. cmp a b \<le> 0 \<or> cmp b a \<le> 0"
    and trans: "\<And>a b c. cmp a b \<le> 0 \<Longrightarrow> cmp b c \<le> 0 \<Longrightarrow> cmp a c \<le> 0"
    and srt: "sorted_wrt (\<lambda>a b. cmp a b \<le> 0) xs"
  shows "sorted_wrt (\<lambda>a b. cmp a b \<le> 0) (insertSorted cmp x xs)"
  using srt
proof (induction xs)
  case Nil
  then show ?case by simp
next
  case (Cons y ys)
  show ?case
  proof (cases "cmp x y \<le> 0")
    case True
    with Cons.prems trans show ?thesis by auto
  next
    case False
    with total have "cmp y x \<le> 0" by blast
    with False Cons show ?thesis by (auto simp: set_insertSorted)
  qed
qed

lemma sorted_wrt_sortWith:
  assumes total: "\<And>a b. cmp a b \<le> 0 \<or> cmp b a \<le> 0"
    and trans: "\<And>a b c. cmp a b \<le> 0 \<Longrightarrow> cmp b c \<le> 0 \<Longrightarrow> cmp a c \<le> 0"
  shows "sorted_wrt (\<lambda>a b. cmp a b \<le> 0) (sortWith cmp xs)"
proof (induction xs)
  case Nil
  then show ?case by simp
next
  case (Cons x xs)
  from sorted_wrt_insertSorted[of cmp "sortWith cmp xs" x, OF total trans Cons.IH]
  show ?case by simp
qed

lemma due_total: "compareTodos lc SortDue ord a b \<le> 0 \<or> compareTodos lc SortDue ord b a \<le> 0"
  by (auto simp: compareTodos_def comparison_def)

lemma due_trans:
  "compareTodos lc SortDue ord a b \<le> 0 \<Longrightarrow> compareTodos lc SortDue ord b c \<le> 0
   \<Longrightarrow> compareTodos lc SortDue ord a c \<le> 0"
  by (auto simp: compareTodos_def comparison_def split: if_splits)

lemma sorted_due:
  "sorted_wrt (\<lambda>a b. compareTodos lc SortDue ord a b \<le> 0)
     (filteredAndSortedTodos lower lc todos q sf pf SortDue ord)"
  unfolding filteredAndSortedTodos_def
proof (rule sorted_wrt_sortWith)
  fix a b
  show "compareTodos lc SortDue ord a b \<le> 0 \<or> compareTodos lc SortDue ord b a \<le> 0"
    by (rule due_total)
next
  fix a b c
  assume "compareTodos lc SortDue ord a b \<le> 0" "compareTodos lc SortDue ord b c \<le> 0"
  then show "compareTodos lc SortDue ord a c \<le> 0" by (rule due_trans)
qed

lemma due_asc_meaning:
  "compareTodos lc SortDue asc a b \<le> 0 \<Longrightarrow>
     (due_date a = None \<longrightarrow> due_date b = None) \<and>
     (\<forall>s t. due_date a = Some s \<and> due_date b = Some t \<longrightarrow> s \<le> t)"
  by (auto simp: compareTodos_def comparison_def split: if_splits)

lemma due_desc_meaning:
  "compareTodos lc SortDue desc a b \<le> 0 \<Longrightarrow>
     (due_date b = None \<longrightarrow> due_date a = None) \<and>
     (\<forall>s t. due_date a = Some s \<and> due_date b = Some t \<longrightarrow> t \<le> s)"
  by (auto simp: compareTodos_def comparison_def split: if_splits)

section \<open>Lemmas on the filters\<close>

lemma filter_chain:
  "priorityFilterStep pf (statusFilterStep sf (searchFilter lower q todos)) =
   filter (\<lambda>t. (trim q = [] \<or> includesStr (lower (title t)) (lower q)) \<and>
               (case sf of StatusAll \<Rightarrow> True | StatusCompleted \<Rightarrow> completed t
                | StatusPending \<Rightarrow> \<not> completed t
                | StatusWaiting \<Rightarrow> \<not> completed t \<and> due_date t = None) \<and>
               (case pf of PriorityAll \<Rightarrow> True | PriorityIs p \<Rightarrow> priority t = Some p)) todos"
  by (cases sf; cases pf)
     (auto simp: priorityFilterStep_def statusFilterStep_def searchFilter_def Let_def
           intro: filter_cong)

section \<open>Lemmas on dates\<close>

lemma day_of_multiple: "(k * msPerDay) div msPerDay = k"
  by (simp add: msPerDay_def)

lemma midnight_eq: "setHours t 0 0 0 0 = (t div msPerDay) * msPerDay"
  by (simp add: setHours_def)

lemma getDay_midnight: "getDay (setHours t 0 0 0 0) = getDay t"
  by (simp add: getDay_def midnight_eq day_of_multiple)

lemma weekWindow_eq:
  "weekWindow t =
     ((t div msPerDay - (if getDay t = 0 then 6 else getDay t - 1)) * msPerDay,
      (t div msPerDay - (if getDay t = 0 then 6 else getDay t - 1) + 6) * msPerDay + 86399999)"
proof -
  define off where "off = (if getDay t = 0 then 6 else getDay t - 1)"
  have m1: "setDateRelative (setHours t 0 0 0 0) (- off) = (t div msPerDay - off) * msPerDay"
    by (simp add: setDateRelative_def midnight_eq algebra_simps)
  have m2: "setHours ((t div msPerDay - off) * msPerDay) 0 0 0 0 = (t div msPerDay - off) * msPerDay"
    by (simp add: midnight_eq day_of_multiple)
  have s1: "setDateRelative ((t div msPerDay - off) * msPerDay) 6 = (t div msPerDay - off + 6) * msPerDay"
    by (simp add: setDateRelative_def algebra_simps)
  have s2: "setHours ((t div msPerDay - off + 6) * msPerDay) 23 59 59 999
             = (t div msPerDay - off + 6) * msPerDay + 86399999"
    by (simp add: setHours_def day_of_multiple)
  show ?thesis
    unfolding weekWindow_def Let_def getDay_midnight off_def[symmetric] m1 m2 s1 s2 ..
qed

lemma rate_bounds:
  fixes c n :: nat
  assumes "c \<le> n" "0 < n"
  shows "0 \<le> real c / real n * 100" "real c / real n * 100 \<le> 100"
    "real c / real n * 100 = 0 \<longleftrightarrow> c = 0"
proof -
  show "0 \<le> real c / real n * 100" by simp
  have "real c / real n \<le> 1" using assms by simp
  then have "real c / real n * 100 \<le> 1 * 100" by (rule mult_right_mono) simp
  then show "real c / real n * 100 \<le> 100" by simp
  show "real c / real n * 100 = 0 \<longleftrightarrow> c = 0" using assms by simp
qed

section \<open>Lemmas on the category counters\<close>

lemma countCategory_other:
  "x \<noteq> cat \<Longrightarrow> countCategory c x stats cat = stats cat"
  by (simp add: countCategory_def Let_def)

lemma countCategory_same:
  "cat \<notin> set objectPrototypeKeys \<Longrightarrow>
   countCategory c cat stats cat =
     Some \<lparr>stat_total = totalOf stats cat + 1,
           stat_completed = completedOf stats cat + (if c then 1 else 0)\<rparr>"
  by (simp add: countCategory_def Let_def totalOf_def completedOf_def split: option.splits)

lemma fold_countCategory_absent:
  "cat \<notin> set cats \<Longrightarrow> fold (countCategory c) cats stats cat = stats cat"
  by (induction cats arbitrary: stats) (auto simp: countCategory_other)

lemma fold_countCategory_total:
  "cat \<notin> set objectPrototypeKeys \<Longrightarrow>
   totalOf (fold (countCategory c) cats stats) cat = totalOf stats cat + count_list cats cat"
proof (induction cats arbitrary: stats)
  case Nil
  then show ?case by simp
next
  case (Cons x xs)
  show ?case
  proof (cases "x = cat")
    case True
    have "totalOf (countCategory c cat stats) cat = totalOf stats cat + 1"
      using Cons.prems by (simp add: totalOf_def countCategory_same[unfolded totalOf_def])
    with True Cons show ?thesis by simp
  next
    case False
    then have "totalOf (countCategory c x stats) cat = totalOf stats cat"
      by (simp add: totalOf_def countCategory_other)
    with False Cons show ?thesis by simp
  qed
qed

lemma fold_countCategory_completed:
  "cat \<notin> set objectPrototypeKeys \<Longrightarrow>
   completedOf (fold (countCategory c) cats stats) cat
     = completedOf stats cat + (if c then count_list cats cat else 0)"
proof (induction cats arbitrary: stats)
  case Nil
  then show ?case by simp
next
  case (Cons x xs)
  show ?case
  proof (cases "x = cat")
    case True
    have "completedOf (countCategory c cat stats) cat = completedOf stats cat + (if c then 1 else 0)"
      using Cons.prems
      by (simp add: completedOf_def countCategory_same[unfolded completedOf_def])
    with True Cons show ?thesis by simp
  next
    case False
    then have "completedOf (countCategory c x stats) cat = completedOf stats cat"
      by (simp add: completedOf_def countCategory_other)
    with False Cons show ?thesis by simp
  qed
qed

lemma fold_countCategory_dom:
  "cat \<notin> set objectPrototypeKeys \<Longrightarrow>
   cat \<in> dom (fold (countCategory c) cats stats) \<longleftrightarrow> cat \<in> dom stats \<or> cat \<in> set cats"
proof (induction cats arbitrary: stats)
  case Nil
  then show ?case by simp
next
  case (Cons x xs)
  show ?case
  proof (cases "x = cat")
    case True
    have "cat \<in> dom (countCategory c cat stats)"
      using Cons.prems by (simp add: domIff countCategory_same)
    with True Cons show ?thesis by simp
  next
    case False
    then have "cat \<in> dom (countCategory c x stats) \<longleftrightarrow> cat \<in> dom stats"
      by (simp add: domIff countCategory_other)
    with False Cons show ?thesis by auto
  qed
qed

lemma categoryStats_fold: "categoryStats todos = fold categoryStep todos Map.empty"
  by (simp add: categoryStats_def)

lemma categoryStep_total:
  "cat \<notin> set objectPrototypeKeys \<Longrightarrow>
   totalOf (categoryStep todo stats) cat = totalOf stats cat + occurrences cat todo"
  by (simp add: categoryStep_def occurrences_def fold_countCategory_total split: option.splits)

lemma categoryStep_completed:
  "cat \<notin> set objectPrototypeKeys \<Longrightarrow>
   completedOf (categoryStep todo stats) cat
     = completedOf stats cat + (if completed todo then occurrences cat todo else 0)"
  by (simp add: categoryStep_def occurrences_def fold_countCategory_completed split: option.splits)

lemma categoryStep_dom:
  "cat \<notin> set objectPrototypeKeys \<Longrightarrow>
   cat \<in> dom (categoryStep todo stats) \<longleftrightarrow> cat \<in> dom stats \<or> 0 < occurrences cat todo"
proof (cases "category todo")
  case None
  then show ?thesis by (simp add: categoryStep_def occurrences_def)
next
  case (Some cats)
  assume "cat \<notin> set objectPrototypeKeys"
  from fold_countCategory_dom[OF this, of "completed todo" cats stats] Some
  show ?thesis
    using count_list_0_iff[of cats cat]
    by (auto simp: categoryStep_def occurrences_def)
qed

lemma fold_categoryStep_total:
  "cat \<notin> set objectPrototypeKeys \<Longrightarrow>
   totalOf (fold categoryStep todos stats) cat
     = totalOf stats cat + sum_list (map (occurrences cat) todos)"
  by (induction todos arbitrary: stats) (simp_all add: categoryStep_total)

lemma fold_categoryStep_completed:
  "cat \<notin> set objectPrototypeKeys \<Longrightarrow>
   completedOf (fold categoryStep todos stats) cat
     = completedOf stats cat + sum_list (map (occurrences cat) (filter completed todos))"
  by (induction todos arbitrary: stats) (simp_all add: categoryStep_completed)

lemma fold_categoryStep_dom:
  "cat \<notin> set objectPrototypeKeys \<Longrightarrow>
   cat \<in> dom (fold categoryStep todos stats)
     \<longleftrightarrow> cat \<in> dom stats \<or> (\<exists>t \<in> set todos. 0 < occurrences cat t)"
proof (induction todos arbitrary: stats)
  case Nil
  then show ?case by simp
next
  case (Cons x xs)
  have "cat \<in> dom (fold categoryStep (x # xs) stats)
        \<longleftrightarrow> cat \<in> dom (categoryStep x stats) \<or> (\<exists>t \<in> set xs. 0 < occurrences cat t)"
    using Cons.IH[OF Cons.prems, of "categoryStep x stats"] by simp
  also have "\<dots> \<longleftrightarrow> (cat \<in> dom stats \<or> 0 < occurrences cat x)
                      \<or> (\<exists>t \<in> set xs. 0 < occurrences cat t)"
    using categoryStep_dom[OF Cons.prems, of x stats] by simp
  also have "\<dots> \<longleftrightarrow> cat \<in> dom stats \<or> (\<exists>t \<in> set (x # xs). 0 < occurrences cat t)"
    by auto
  finally show ?case .
qed

lemma count_list_pos_iff: "0 < count_list xs x \<longleftrightarrow> x \<in> set xs"
  using count_list_0_iff[of xs x] by auto

lemma count_list_distinct: "distinct xs \<Longrightarrow> count_list xs x = (if x \<in> set xs then 1 else 0)"
  by (induction xs) auto

lemma occurrences_distinct:
  "(\<forall>cats. category t = Some cats \<longrightarrow> distinct cats) \<Longrightarrow>
   occurrences cat t = (if \<exists>cats. category t = Some cats \<and> cat \<in> set cats then 1 else 0)"
  by (auto simp: occurrences_def count_list_distinct split: option.splits)

lemma sum_list_indicator: "sum_list (map (\<lambda>t. if P t then 1 else 0) xs) = length (filter P xs)"
  by (induction xs) auto


lemma labels_not_inherited:
  "categoryWork \<notin> set objectPrototypeKeys" "categoryPersonal \<notin> set objectPrototypeKeys"
  by (simp_all add: categoryWork_def categoryPersonal_def objectPrototypeKeys_def ascii_def)

text \<open>A label that names an inherited property never gets an entry.\<close>

lemma countCategory_inherited:
  "cat \<in> set objectPrototypeKeys \<Longrightarrow> countCategory c x stats cat = stats cat"
  by (cases "x = cat") (simp_all add: countCategory_def Let_def)

lemma fold_countCategory_inherited:
  "cat \<in> set objectPrototypeKeys \<Longrightarrow> fold (countCategory c) cats stats cat = stats cat"
  by (induction cats arbitrary: stats) (simp_all add: countCategory_inherited)

lemma categoryStep_inherited:
  "cat \<in> set objectPrototypeKeys \<Longrightarrow> categoryStep todo stats cat = stats cat"
  by (simp add: categoryStep_def fold_countCategory_inherited split: option.splits)

lemma inherited_label_no_entry:
  "cat \<in> set objectPrototypeKeys \<Longrightarrow> categoryStats todos cat = None"
proof -
  assume inh: "cat \<in> set objectPrototypeKeys"
  have "fold categoryStep todos stats cat = stats cat" for stats
    by (induction todos arbitrary: stats) (simp_all add: categoryStep_inherited[OF inh])
  then show ?thesis by (simp add: categoryStats_def)
qed

section \<open>Lemmas on the extraction endpoint\<close>

lemma replaceWhiteSpaceRuns_empty_iff: "replaceWhiteSpaceRuns s = [] \<longleftrightarrow> s = []"
  by (cases s) simp_all

lemma normalized_empty_iff:
  "replaceWhiteSpaceRuns (trim input) = [] \<longleftrightarrow> (\<forall>c \<in> set input. isWhiteSpace c)"
  by (simp add: replaceWhiteSpaceRuns_empty_iff trim_empty_iff)

lemma replaceWhiteSpaceRuns_spaces:
  "c \<in> set (replaceWhiteSpaceRuns s) \<Longrightarrow> isWhiteSpace c \<Longrightarrow> c = 0x20"
  by (induction s rule: replaceWhiteSpaceRuns.induct) (auto split: if_splits)

lemma dropWhile_replicate: "\<not> P c \<Longrightarrow> dropWhile P (replicate n c) = replicate n c"
  by (cases n) simp_all

lemma trim_replicate: "\<not> isWhiteSpace c \<Longrightarrow> trim (replicate n c) = replicate n c"
  by (simp add: trim_def dropWhile_replicate)

lemma replaceWhiteSpaceRuns_replicate:
  "\<not> isWhiteSpace c \<Longrightarrow> replaceWhiteSpaceRuns (replicate n c) = replicate n c"
  by (induction n) simp_all

lemma normalize_samples:
  "replaceWhiteSpaceRuns (trim (ascii ''   '')) = []"
  "replaceWhiteSpaceRuns (trim (ascii '' a '')) = ascii ''a''"
  "replaceWhiteSpaceRuns (trim (ascii '' ab   cd '')) = ascii ''ab cd''"
  "replaceWhiteSpaceRuns (trim (replicate 501 0x61)) = replicate 501 0x61"
  by (simp_all add: trim_replicate replaceWhiteSpaceRuns_replicate isWhiteSpace_def)
     (simp_all add: trim_def ascii_def isWhiteSpace_def)


lemma splitAtWhiteSpace_nonempty: "splitAtWhiteSpace s \<noteq> []"
  by (induction s) (auto split: list.splits)

lemma joinWords_Cons:
  "joinWords (w # ws) = (if ws = [] then w else w @ 0x20 # joinWords ws)"
  by (cases ws) simp_all

lemma dropTrailing_Cons:
  "rev (dropWhile P (rev (c # cs))) =
     (if P c \<and> rev (dropWhile P (rev cs)) = [] then [] else c # rev (dropWhile P (rev cs)))"
  by (auto simp: dropWhile_append dropWhile_eq_Nil_conv)

lemma dropWhile_dropTrailing:
  "dropWhile P (rev (dropWhile P (rev s))) = rev (dropWhile P (rev (dropWhile P s)))"
proof (induction s)
  case Nil
  then show ?case by simp
next
  case (Cons c cs)
  define X where "X = rev (dropWhile P (rev cs))"
  have dt: "rev (dropWhile P (rev (c # cs))) = (if P c \<and> X = [] then [] else c # X)"
    unfolding X_def by (rule dropTrailing_Cons)
  have ih: "dropWhile P X = rev (dropWhile P (rev (dropWhile P cs)))"
    unfolding X_def by (rule Cons.IH)
  show ?case
  proof (cases "P c")
    case True
    have "dropWhile P (rev (dropWhile P (rev (c # cs)))) = dropWhile P X"
      unfolding dt using True by (cases "X = []") simp_all
    also have "\<dots> = rev (dropWhile P (rev (dropWhile P (c # cs))))"
      using True ih by simp
    finally show ?thesis .
  next
    case False
    have "dropWhile P (rev (dropWhile P (rev (c # cs)))) = c # X"
      unfolding dt using False by simp
    also have "\<dots> = rev (dropWhile P (rev (dropWhile P (c # cs))))"
      using False dt by simp
    finally show ?thesis .
  qed
qed

lemma trim_Cons:
  "trim (c # cs) =
     (if isWhiteSpace c then trim cs else c # rev (dropWhile isWhiteSpace (rev cs)))"
  by (simp add: trim_def dropTrailing_Cons del: rev.simps)

lemma normalize_step:
  "replaceWhiteSpaceRuns (trim (c # cs)) =
     (if isWhiteSpace c then replaceWhiteSpaceRuns (trim cs)
      else c # replaceWhiteSpaceRuns (rev (dropWhile isWhiteSpace (rev cs))))"
  by (simp add: trim_Cons)

lemma dropTrailing_step:
  "replaceWhiteSpaceRuns (rev (dropWhile isWhiteSpace (rev (c # cs)))) =
     (if isWhiteSpace c then
        (if rev (dropWhile isWhiteSpace (rev cs)) = [] then []
         else 0x20 # replaceWhiteSpaceRuns (trim cs))
      else c # replaceWhiteSpaceRuns (rev (dropWhile isWhiteSpace (rev cs))))"
  by (simp only: dropTrailing_Cons)
     (simp add: trim_def dropWhile_dropTrailing del: rev.simps)

lemma normalize_words_aux:
  "replaceWhiteSpaceRuns (trim s) = joinWords (wordsOf s)
   \<and> replaceWhiteSpaceRuns (rev (dropWhile isWhiteSpace (rev s)))
       = (if filter (\<lambda>w. w \<noteq> []) (tl (splitAtWhiteSpace s)) = [] then hd (splitAtWhiteSpace s)
          else hd (splitAtWhiteSpace s)
                 @ 0x20 # joinWords (filter (\<lambda>w. w \<noteq> []) (tl (splitAtWhiteSpace s))))
   \<and> (rev (dropWhile isWhiteSpace (rev s)) = [] \<longleftrightarrow> wordsOf s = [])"
proof (induction s)
  case Nil
  then show ?case by (simp add: trim_def wordsOf_def)
next
  case (Cons c cs)
  obtain w rest where W: "splitAtWhiteSpace cs = w # rest"
    using splitAtWhiteSpace_nonempty[of cs] by (cases "splitAtWhiteSpace cs") auto
  show ?case
  proof (cases "isWhiteSpace c")
    case True
    have sp: "splitAtWhiteSpace (c # cs) = [] # splitAtWhiteSpace cs" using True by simp
    have wo: "wordsOf (c # cs) = wordsOf cs" unfolding wordsOf_def sp by simp
    have a: "replaceWhiteSpaceRuns (trim (c # cs)) = joinWords (wordsOf (c # cs))"
      using True Cons.IH by (simp only: normalize_step wo) simp
    have e: "rev (dropWhile isWhiteSpace (rev (c # cs))) = [] \<longleftrightarrow> wordsOf (c # cs) = []"
      using True Cons.IH by (simp only: dropTrailing_Cons wo) simp
    have b: "replaceWhiteSpaceRuns (rev (dropWhile isWhiteSpace (rev (c # cs))))
       = (if filter (\<lambda>w. w \<noteq> []) (tl (splitAtWhiteSpace (c # cs))) = []
          then hd (splitAtWhiteSpace (c # cs))
          else hd (splitAtWhiteSpace (c # cs))
                 @ 0x20 # joinWords (filter (\<lambda>w. w \<noteq> []) (tl (splitAtWhiteSpace (c # cs)))))"
      using True Cons.IH by (simp only: dropTrailing_step sp) (simp add: wordsOf_def)
    from a b e show ?thesis by blast
  next
    case False
    have sp: "splitAtWhiteSpace (c # cs) = (c # w) # rest" using False W by simp
    have wo: "wordsOf (c # cs) = (c # w) # filter (\<lambda>w. w \<noteq> []) rest"
      unfolding wordsOf_def sp by simp
    have k: "replaceWhiteSpaceRuns (rev (dropWhile isWhiteSpace (rev cs)))
       = (if filter (\<lambda>w. w \<noteq> []) rest = [] then w
          else w @ 0x20 # joinWords (filter (\<lambda>w. w \<noteq> []) rest))"
      using Cons.IH W by simp
    have a: "replaceWhiteSpaceRuns (trim (c # cs)) = joinWords (wordsOf (c # cs))"
      using False k by (simp only: normalize_step wo joinWords_Cons) simp
    have e: "rev (dropWhile isWhiteSpace (rev (c # cs))) = [] \<longleftrightarrow> wordsOf (c # cs) = []"
      using False by (simp only: dropTrailing_Cons wo) simp
    have b: "replaceWhiteSpaceRuns (rev (dropWhile isWhiteSpace (rev (c # cs))))
       = (if filter (\<lambda>w. w \<noteq> []) (tl (splitAtWhiteSpace (c # cs))) = []
          then hd (splitAtWhiteSpace (c # cs))
          else hd (splitAtWhiteSpace (c # cs))
                 @ 0x20 # joinWords (filter (\<lambda>w. w \<noteq> []) (tl (splitAtWhiteSpace (c # cs)))))"
      using False k by (simp only: dropTrailing_step sp) simp
    from a b e show ?thesis by blast
  qed
qed

lemma normalize_words: "replaceWhiteSpaceRuns (trim s) = joinWords (wordsOf s)"
  using normalize_words_aux[of s] by blast

lemma isWhiteSpace_iff:
  "isWhiteSpace c \<longleftrightarrow>
     c \<in> set [0x09, 0x0A, 0x0B, 0x0C, 0x0D, 0x20, 0xA0, 0x1680, 0x2028, 0x2029, 0x202F,
               0x205F, 0x3000, 0xFEFF] \<or> (0x2000 \<le> c \<and> c \<le> 0x200A)"
  by (auto simp: isWhiteSpace_def)








section \<open>Lemmas on the order of the result\<close>

lemma count_list_insertSorted:
  "count_list (insertSorted cmp x xs) y = count_list (x # xs) y"
  by (induction xs) auto

lemma count_list_sortWith: "count_list (sortWith cmp xs) y = count_list xs y"
  by (induction xs) (auto simp: count_list_insertSorted)

lemma priority_total:
  "compareTodos lc SortPriority ord a b \<le> 0 \<or> compareTodos lc SortPriority ord b a \<le> 0"
  by (auto simp: compareTodos_def comparison_def)

lemma priority_trans:
  "compareTodos lc SortPriority ord a b \<le> 0 \<Longrightarrow> compareTodos lc SortPriority ord b c \<le> 0
   \<Longrightarrow> compareTodos lc SortPriority ord a c \<le> 0"
  by (auto simp: compareTodos_def comparison_def split: if_splits)

lemma created_total:
  "compareTodos lc SortCreated ord a b \<le> 0 \<or> compareTodos lc SortCreated ord b a \<le> 0"
  by (auto simp: compareTodos_def comparison_def)

lemma created_trans:
  "compareTodos lc SortCreated ord a b \<le> 0 \<Longrightarrow> compareTodos lc SortCreated ord b c \<le> 0
   \<Longrightarrow> compareTodos lc SortCreated ord a c \<le> 0"
  by (auto simp: compareTodos_def comparison_def split: if_splits)

lemma sorted_priority:
  "sorted_wrt (\<lambda>x y. if ord = desc
                      then priorityOrder (priority y) \<le> priorityOrder (priority x)
                      else priorityOrder (priority x) \<le> priorityOrder (priority y))
     (sortWith (compareTodos lc SortPriority ord) xs)"
proof -
  have "sorted_wrt (\<lambda>a b. compareTodos lc SortPriority ord a b \<le> 0)
          (sortWith (compareTodos lc SortPriority ord) xs)"
  proof (rule sorted_wrt_sortWith)
    fix a b
    show "compareTodos lc SortPriority ord a b \<le> 0 \<or> compareTodos lc SortPriority ord b a \<le> 0"
      by (rule priority_total)
  next
    fix a b c
    assume "compareTodos lc SortPriority ord a b \<le> 0" "compareTodos lc SortPriority ord b c \<le> 0"
    then show "compareTodos lc SortPriority ord a c \<le> 0" by (rule priority_trans)
  qed
  then show ?thesis
    by (rule sorted_wrt_mono_rel[rotated]) (auto simp: compareTodos_def comparison_def split: if_splits)
qed

lemma sorted_created:
  "sorted_wrt (\<lambda>x y. if ord = desc then created_date y \<le> created_date x
                      else created_date x \<le> created_date y)
     (sortWith (compareTodos lc SortCreated ord) xs)"
proof -
  have "sorted_wrt (\<lambda>a b. compareTodos lc SortCreated ord a b \<le> 0)
          (sortWith (compareTodos lc SortCreated ord) xs)"
  proof (rule sorted_wrt_sortWith)
    fix a b
    show "compareTodos lc SortCreated ord a b \<le> 0 \<or> compareTodos lc SortCreated ord b a \<le> 0"
      by (rule created_total)
  next
    fix a b c
    assume "compareTodos lc SortCreated ord a b \<le> 0" "compareTodos lc SortCreated ord b c \<le> 0"
    then show "compareTodos lc SortCreated ord a c \<le> 0" by (rule created_trans)
  qed
  then show ?thesis
    by (rule sorted_wrt_mono_rel[rotated]) (auto simp: compareTodos_def comparison_def split: if_splits)
qed

lemma sorted_any:
  assumes "\<forall>a b. compareTodos lc sb so a b \<le> 0 \<or> compareTodos lc sb so b a \<le> 0"
    and "\<forall>a b c. compareTodos lc sb so a b \<le> 0 \<and> compareTodos lc sb so b c \<le> 0
           \<longrightarrow> compareTodos lc sb so a c \<le> 0"
  shows "sorted_wrt (\<lambda>a b. compareTodos lc sb so a b \<le> 0) (sortWith (compareTodos lc sb so) xs)"
proof (rule sorted_wrt_sortWith)
  fix a b
  show "compareTodos lc sb so a b \<le> 0 \<or> compareTodos lc sb so b a \<le> 0"
    using assms(1) by blast
next
  fix a b c
  assume "compareTodos lc sb so a b \<le> 0" "compareTodos lc sb so b c \<le> 0"
  then show "compareTodos lc sb so a c \<le> 0" using assms(2) by blast
qed

section \<open>The claims\<close>

subsection \<open>C1: sorting by due date\<close>

text \<open>
  C1, as the code has it. Sorting by \<open>due\<close> in direction \<open>asc\<close> places every task
  without a due timestamp after every task that has one, and the tasks that have one
  in ascending order of the timestamps. Direction \<open>desc\<close> negates the comparator, so
  it reverses both: every task without a due timestamp comes before every task that
  has one, and the timestamps descend. The comparator of \<open>asc\<close> is the comparison
  itself and that of \<open>desc\<close> is its negation.
\<close>

theorem due_sort_direction:
  "(ord = asc \<longrightarrow>
      sorted_wrt (\<lambda>a b. (due_date a = None \<longrightarrow> due_date b = None) \<and>
                         (\<forall>s t. due_date a = Some s \<and> due_date b = Some t \<longrightarrow> s \<le> t))
        (filteredAndSortedTodos lower lc todos q sf pf SortDue ord)) \<and>
   (ord = desc \<longrightarrow>
      sorted_wrt (\<lambda>a b. (due_date b = None \<longrightarrow> due_date a = None) \<and>
                         (\<forall>s t. due_date a = Some s \<and> due_date b = Some t \<longrightarrow> t \<le> s))
        (filteredAndSortedTodos lower lc todos q sf pf SortDue ord)) \<and>
   compareTodos lc SortDue asc x y = comparison lc SortDue x y \<and>
   compareTodos lc SortDue desc x y = - comparison lc SortDue x y"
proof (intro conjI impI)
  assume "ord = asc"
  then show "sorted_wrt (\<lambda>a b. (due_date a = None \<longrightarrow> due_date b = None) \<and>
                         (\<forall>s t. due_date a = Some s \<and> due_date b = Some t \<longrightarrow> s \<le> t))
        (filteredAndSortedTodos lower lc todos q sf pf SortDue ord)"
    by (auto intro!: sorted_wrt_mono_rel[OF _ sorted_due[of lc asc lower todos q sf pf]]
             dest: due_asc_meaning)
next
  assume "ord = desc"
  then show "sorted_wrt (\<lambda>a b. (due_date b = None \<longrightarrow> due_date a = None) \<and>
                         (\<forall>s t. due_date a = Some s \<and> due_date b = Some t \<longrightarrow> t \<le> s))
        (filteredAndSortedTodos lower lc todos q sf pf SortDue ord)"
    by (auto intro!: sorted_wrt_mono_rel[OF _ sorted_due[of lc desc lower todos q sf pf]]
             dest: due_desc_meaning)
qed (simp_all add: compareTodos_def)

text \<open>At the list of a task with a due date followed by one without, in both directions.\<close>

theorem due_sort_direction_witness:
  "sorted_wrt (\<lambda>a b. (due_date a = None \<longrightarrow> due_date b = None) \<and>
                      (\<forall>s t. due_date a = Some s \<and> due_date b = Some t \<longrightarrow> s \<le> t))
     (filteredAndSortedTodos (\<lambda>s. s) (\<lambda>a b. 0) [noDueTask, dueTask] [] StatusAll PriorityAll
        SortDue asc) \<and>
   sorted_wrt (\<lambda>a b. (due_date b = None \<longrightarrow> due_date a = None) \<and>
                      (\<forall>s t. due_date a = Some s \<and> due_date b = Some t \<longrightarrow> t \<le> s))
     (filteredAndSortedTodos (\<lambda>s. s) (\<lambda>a b. 0) [noDueTask, dueTask] [] StatusAll PriorityAll
        SortDue desc)"
  using due_sort_direction[of asc "\<lambda>s. s" "\<lambda>a b. 0" "[noDueTask, dueTask]" "[]" StatusAll PriorityAll]
    due_sort_direction[of desc "\<lambda>s. s" "\<lambda>a b. 0" "[noDueTask, dueTask]" "[]" StatusAll PriorityAll]
  by simp

text \<open>
  C1 as stated fails for \<open>desc\<close>: of a task with a due date and a task without, sorted
  by \<open>due\<close> descending, the task without a due date comes first.
\<close>

theorem due_sort_desc_counterexample:
  "filteredAndSortedTodos (\<lambda>s. s) (\<lambda>a b. 0) [dueTask, noDueTask] [] StatusAll PriorityAll
     SortDue desc = [noDueTask, dueTask]
   \<and> due_date noDueTask = None \<and> due_date dueTask = Some 1793788200000"
  by (simp add: filteredAndSortedTodos_def searchFilter_def statusFilterStep_def
      priorityFilterStep_def trim_def compareTodos_def comparison_def dueTask_def noDueTask_def)

subsection \<open>C2: waiting within pending\<close>

text \<open>
  C2. For every task list and every search text, priority filter, sort key and
  direction, the tasks returned under the status filter \<open>waiting\<close> are among the tasks
  returned under the status filter \<open>pending\<close>.
\<close>

theorem waiting_subset_pending:
  "set (filteredAndSortedTodos lower lc todos q StatusWaiting pf sb so)
   \<subseteq> set (filteredAndSortedTodos lower lc todos q StatusPending pf sb so)"
  by (auto simp: filteredAndSortedTodos_def set_sortWith filter_chain)

theorem waiting_subset_pending_witness:
  "set (filteredAndSortedTodos (\<lambda>s. s) (\<lambda>a b. 0) [taskA, taskB, dueTask, noDueTask] []
          StatusWaiting PriorityAll SortCreated desc)
   \<subseteq> set (filteredAndSortedTodos (\<lambda>s. s) (\<lambda>a b. 0) [taskA, taskB, dueTask, noDueTask] []
          StatusPending PriorityAll SortCreated desc)"
  by (rule waiting_subset_pending)

subsection \<open>C3: the filters and the scenario\<close>

text \<open>
  C3. The result is the sorted list of what the search filter, then the status
  filter, then the priority filter keep, which is the sorted list of the tasks that
  satisfy all three conditions; it holds each of those tasks as often as the filtered
  list does. The search condition holds when the search text is empty or all white
  space, and otherwise when the lower-cased search text occurs as a substring of the
  lower-cased title; it reads no other field. The result is in the order of the
  comparator whenever the comparator is a total preorder; by priority it is in the
  order of the ranks high 3, medium 2, low 1, unset 0, descending for \<open>desc\<close> and
  ascending for \<open>asc\<close>, and by creation it is in the order of the created
  timestamps. For a task A (title "A", priority high, not completed, no due date) and
  a task B (title "B", priority low, completed, no due date), given in either order
  and with no search text: status \<open>pending\<close> gives [A], priority \<open>high\<close> gives [A], and
  sorting by priority descending gives [A, B].
\<close>

theorem filter_sort_engine:
  "filteredAndSortedTodos lower lc todos q sf pf sb so =
     sortWith (compareTodos lc sb so)
       (filter (\<lambda>t. case pf of PriorityAll \<Rightarrow> True | PriorityIs p \<Rightarrow> priority t = Some p)
         (filter (\<lambda>t. case sf of StatusAll \<Rightarrow> True | StatusCompleted \<Rightarrow> completed t
                        | StatusPending \<Rightarrow> \<not> completed t
                        | StatusWaiting \<Rightarrow> \<not> completed t \<and> due_date t = None)
           (filter (\<lambda>t. (\<forall>c \<in> set q. isWhiteSpace c) \<or>
                          (\<exists>ps ss. lower (title t) = ps @ lower q @ ss)) todos)))
   \<and> filteredAndSortedTodos lower lc todos q sf pf sb so =
     sortWith (compareTodos lc sb so)
       (filter (\<lambda>t. ((\<forall>c \<in> set q. isWhiteSpace c) \<or>
                       (\<exists>ps ss. lower (title t) = ps @ lower q @ ss)) \<and>
                     (case sf of StatusAll \<Rightarrow> True | StatusCompleted \<Rightarrow> completed t
                        | StatusPending \<Rightarrow> \<not> completed t
                        | StatusWaiting \<Rightarrow> \<not> completed t \<and> due_date t = None) \<and>
                     (case pf of PriorityAll \<Rightarrow> True | PriorityIs p \<Rightarrow> priority t = Some p))
          todos)
   \<and> (\<forall>x. count_list (filteredAndSortedTodos lower lc todos q sf pf sb so) x =
          count_list (filter (\<lambda>t. ((\<forall>c \<in> set q. isWhiteSpace c) \<or>
                       (\<exists>ps ss. lower (title t) = ps @ lower q @ ss)) \<and>
                     (case sf of StatusAll \<Rightarrow> True | StatusCompleted \<Rightarrow> completed t
                        | StatusPending \<Rightarrow> \<not> completed t
                        | StatusWaiting \<Rightarrow> \<not> completed t \<and> due_date t = None) \<and>
                     (case pf of PriorityAll \<Rightarrow> True | PriorityIs p \<Rightarrow> priority t = Some p))
             todos) x)
   \<and> ((\<forall>x y. compareTodos lc sb so x y \<le> 0 \<or> compareTodos lc sb so y x \<le> 0) \<and>
       (\<forall>x y z. compareTodos lc sb so x y \<le> 0 \<and> compareTodos lc sb so y z \<le> 0
                  \<longrightarrow> compareTodos lc sb so x z \<le> 0) \<longrightarrow>
        sorted_wrt (\<lambda>x y. compareTodos lc sb so x y \<le> 0)
          (filteredAndSortedTodos lower lc todos q sf pf sb so))
   \<and> sorted_wrt (\<lambda>x y. if so = desc
                         then priorityOrder (priority y) \<le> priorityOrder (priority x)
                         else priorityOrder (priority x) \<le> priorityOrder (priority y))
        (filteredAndSortedTodos lower lc todos q sf pf SortPriority so)
   \<and> sorted_wrt (\<lambda>x y. if so = desc then created_date y \<le> created_date x
                         else created_date x \<le> created_date y)
        (filteredAndSortedTodos lower lc todos q sf pf SortCreated so)
   \<and> (priorityOrder (Some high) = 3 \<and> priorityOrder (Some medium) = 2 \<and>
       priorityOrder (Some low) = 1 \<and> priorityOrder None = 0)
   \<and> ((\<forall>c \<in> set q. isWhiteSpace c) \<longrightarrow> searchFilter lower q todos = todos)
   \<and> (isWhiteSpace c \<longleftrightarrow>
        c \<in> set [0x09, 0x0A, 0x0B, 0x0C, 0x0D, 0x20, 0xA0, 0x1680, 0x2028, 0x2029, 0x202F,
                  0x205F, 0x3000, 0xFEFF] \<or> (0x2000 \<le> c \<and> c \<le> 0x200A))
   \<and> (title a = ascii ''A'' \<and> priority a = Some high \<and> \<not> completed a \<and> due_date a = None \<and>
       title b = ascii ''B'' \<and> priority b = Some low \<and> completed b \<and> due_date b = None \<and>
       (\<forall>c \<in> set q. isWhiteSpace c) \<and> (ts = [a, b] \<or> ts = [b, a]) \<longrightarrow>
         filteredAndSortedTodos lower lc ts q StatusPending PriorityAll sb so = [a] \<and>
         filteredAndSortedTodos lower lc ts q StatusAll (PriorityIs high) sb so = [a] \<and>
         filteredAndSortedTodos lower lc ts q StatusAll PriorityAll SortPriority desc = [a, b])"
proof (intro conjI impI allI)
  show eq: "filteredAndSortedTodos lower lc todos q sf pf sb so =
     sortWith (compareTodos lc sb so)
       (filter (\<lambda>t. ((\<forall>c \<in> set q. isWhiteSpace c) \<or>
                       (\<exists>ps ss. lower (title t) = ps @ lower q @ ss)) \<and>
                     (case sf of StatusAll \<Rightarrow> True | StatusCompleted \<Rightarrow> completed t
                        | StatusPending \<Rightarrow> \<not> completed t
                        | StatusWaiting \<Rightarrow> \<not> completed t \<and> due_date t = None) \<and>
                     (case pf of PriorityAll \<Rightarrow> True | PriorityIs p \<Rightarrow> priority t = Some p))
          todos)"
    by (simp add: filteredAndSortedTodos_def filter_chain trim_empty_iff includesStr_iff)
  then show "filteredAndSortedTodos lower lc todos q sf pf sb so =
     sortWith (compareTodos lc sb so)
       (filter (\<lambda>t. case pf of PriorityAll \<Rightarrow> True | PriorityIs p \<Rightarrow> priority t = Some p)
         (filter (\<lambda>t. case sf of StatusAll \<Rightarrow> True | StatusCompleted \<Rightarrow> completed t
                        | StatusPending \<Rightarrow> \<not> completed t
                        | StatusWaiting \<Rightarrow> \<not> completed t \<and> due_date t = None)
           (filter (\<lambda>t. (\<forall>c \<in> set q. isWhiteSpace c) \<or>
                          (\<exists>ps ss. lower (title t) = ps @ lower q @ ss)) todos)))"
    by (simp add: conj_commute conj_left_commute cong: conj_cong)
  fix x
  show "count_list (filteredAndSortedTodos lower lc todos q sf pf sb so) x =
          count_list (filter (\<lambda>t. ((\<forall>c \<in> set q. isWhiteSpace c) \<or>
                       (\<exists>ps ss. lower (title t) = ps @ lower q @ ss)) \<and>
                     (case sf of StatusAll \<Rightarrow> True | StatusCompleted \<Rightarrow> completed t
                        | StatusPending \<Rightarrow> \<not> completed t
                        | StatusWaiting \<Rightarrow> \<not> completed t \<and> due_date t = None) \<and>
                     (case pf of PriorityAll \<Rightarrow> True | PriorityIs p \<Rightarrow> priority t = Some p))
             todos) x"
    unfolding eq by (rule count_list_sortWith)
next
  assume "(\<forall>x y. compareTodos lc sb so x y \<le> 0 \<or> compareTodos lc sb so y x \<le> 0) \<and>
       (\<forall>x y z. compareTodos lc sb so x y \<le> 0 \<and> compareTodos lc sb so y z \<le> 0
                  \<longrightarrow> compareTodos lc sb so x z \<le> 0)"
  then show "sorted_wrt (\<lambda>x y. compareTodos lc sb so x y \<le> 0)
          (filteredAndSortedTodos lower lc todos q sf pf sb so)"
    unfolding filteredAndSortedTodos_def by (intro sorted_any) blast+
next
  show "sorted_wrt (\<lambda>x y. if so = desc
                         then priorityOrder (priority y) \<le> priorityOrder (priority x)
                         else priorityOrder (priority x) \<le> priorityOrder (priority y))
        (filteredAndSortedTodos lower lc todos q sf pf SortPriority so)"
    unfolding filteredAndSortedTodos_def by (rule sorted_priority)
next
  show "sorted_wrt (\<lambda>x y. if so = desc then created_date y \<le> created_date x
                         else created_date x \<le> created_date y)
        (filteredAndSortedTodos lower lc todos q sf pf SortCreated so)"
    unfolding filteredAndSortedTodos_def by (rule sorted_created)
next
  show "priorityOrder (Some high) = 3" "priorityOrder (Some medium) = 2"
    "priorityOrder (Some low) = 1" "priorityOrder None = 0"
    by simp_all
next
  assume "\<forall>c \<in> set q. isWhiteSpace c"
  then show "searchFilter lower q todos = todos"
    by (simp add: searchFilter_def trim_empty_iff)
next
  show "isWhiteSpace c \<longleftrightarrow>
        c \<in> set [0x09, 0x0A, 0x0B, 0x0C, 0x0D, 0x20, 0xA0, 0x1680, 0x2028, 0x2029, 0x202F,
                  0x205F, 0x3000, 0xFEFF] \<or> (0x2000 \<le> c \<and> c \<le> 0x200A)"
    by (rule isWhiteSpace_iff)
next
  assume h: "title a = ascii ''A'' \<and> priority a = Some high \<and> \<not> completed a \<and> due_date a = None \<and>
       title b = ascii ''B'' \<and> priority b = Some low \<and> completed b \<and> due_date b = None \<and>
       (\<forall>c \<in> set q. isWhiteSpace c) \<and> (ts = [a, b] \<or> ts = [b, a])"
  then have tq: "trim q = []" by (simp add: trim_empty_iff)
  from h have ts: "ts = [a, b] \<or> ts = [b, a]" by blast
  from h tq ts show "filteredAndSortedTodos lower lc ts q StatusPending PriorityAll sb so = [a]"
    by (auto simp: filteredAndSortedTodos_def searchFilter_def statusFilterStep_def
        priorityFilterStep_def)
  from h tq ts show "filteredAndSortedTodos lower lc ts q StatusAll (PriorityIs high) sb so = [a]"
    by (auto simp: filteredAndSortedTodos_def searchFilter_def statusFilterStep_def
        priorityFilterStep_def)
  from h tq ts show "filteredAndSortedTodos lower lc ts q StatusAll PriorityAll SortPriority desc = [a, b]"
    by (auto simp: filteredAndSortedTodos_def searchFilter_def statusFilterStep_def
        priorityFilterStep_def compareTodos_def comparison_def)
qed

text \<open>The scenario from the list [B, A] with a search text of two spaces, and two
  searches in another case than the title's: "a" finds the task A, "REP" finds the task
  "report".\<close>

theorem filter_sort_engine_witness:
  "filteredAndSortedTodos asciiLower (\<lambda>x y. 0) [taskB, taskA] (ascii ''  '') StatusPending
     PriorityAll SortCreated desc = [taskA] \<and>
   filteredAndSortedTodos asciiLower (\<lambda>x y. 0) [taskB, taskA] (ascii ''  '') StatusAll
     (PriorityIs high) SortCreated desc = [taskA] \<and>
   filteredAndSortedTodos asciiLower (\<lambda>x y. 0) [taskB, taskA] (ascii ''  '') StatusAll
     PriorityAll SortPriority desc = [taskA, taskB] \<and>
   filteredAndSortedTodos asciiLower (\<lambda>x y. 0) [taskA, taskB, dueTask] (ascii ''a'') StatusAll
     PriorityAll SortPriority asc = [taskA] \<and>
   filteredAndSortedTodos asciiLower (\<lambda>x y. 0) [taskA, taskB, dueTask] (ascii ''REP'') StatusAll
     PriorityAll SortPriority asc = [dueTask]"
proof -
  note scenario = filter_sort_engine[of asciiLower "\<lambda>x y. 0" "[taskB, taskA]" "ascii ''  ''"
      StatusAll PriorityAll SortCreated desc 0 taskA taskB "[taskB, taskA]",
      THEN conjunct2, THEN conjunct2, THEN conjunct2, THEN conjunct2, THEN conjunct2,
      THEN conjunct2, THEN conjunct2, THEN conjunct2, THEN conjunct2]
  note search1 = filter_sort_engine[of asciiLower "\<lambda>x y. 0" "[taskA, taskB, dueTask]"
      "ascii ''a''" StatusAll PriorityAll SortPriority asc, THEN conjunct2, THEN conjunct1]
  note search2 = filter_sort_engine[of asciiLower "\<lambda>x y. 0" "[taskA, taskB, dueTask]"
      "ascii ''REP''" StatusAll PriorityAll SortPriority asc, THEN conjunct2, THEN conjunct1]
  have ws: "\<forall>c \<in> set (ascii ''  ''). isWhiteSpace c"
    by (simp add: ascii_def isWhiteSpace_def)
  have fields: "title taskA = ascii ''A'' \<and> priority taskA = Some high \<and> \<not> completed taskA \<and>
      due_date taskA = None \<and> title taskB = ascii ''B'' \<and> priority taskB = Some low \<and>
      completed taskB \<and> due_date taskB = None"
    by (simp add: taskA_def taskB_def)
  from scenario ws fields have a:
    "filteredAndSortedTodos asciiLower (\<lambda>x y. 0) [taskB, taskA] (ascii ''  '') StatusPending
       PriorityAll SortCreated desc = [taskA] \<and>
     filteredAndSortedTodos asciiLower (\<lambda>x y. 0) [taskB, taskA] (ascii ''  '') StatusAll
       (PriorityIs high) SortCreated desc = [taskA] \<and>
     filteredAndSortedTodos asciiLower (\<lambda>x y. 0) [taskB, taskA] (ascii ''  '') StatusAll
       PriorityAll SortPriority desc = [taskA, taskB]"
    by blast
  have nw: "\<not> (\<forall>c \<in> set (ascii ''a''). isWhiteSpace c)"
    "\<not> (\<forall>c \<in> set (ascii ''REP''). isWhiteSpace c)"
    by (simp_all add: ascii_def isWhiteSpace_def)
  have low: "asciiLower (title taskA) = ascii ''a''" "asciiLower (title taskB) = ascii ''b''"
    "asciiLower (title dueTask) = ascii ''report''" "asciiLower (ascii ''a'') = ascii ''a''"
    "asciiLower (ascii ''REP'') = ascii ''rep''"
    by (simp_all add: asciiLower_def taskA_def taskB_def dueTask_def ascii_def)
  have inc: "includesStr (ascii ''a'') (ascii ''a'')" "\<not> includesStr (ascii ''b'') (ascii ''a'')"
    "\<not> includesStr (ascii ''report'') (ascii ''a'')"
    "\<not> includesStr (ascii ''a'') (ascii ''rep'')" "\<not> includesStr (ascii ''b'') (ascii ''rep'')"
    "includesStr (ascii ''report'') (ascii ''rep'')"
    by (simp_all add: ascii_def)
  have b: "filteredAndSortedTodos asciiLower (\<lambda>x y. 0) [taskA, taskB, dueTask] (ascii ''a'')
       StatusAll PriorityAll SortPriority asc = [taskA]"
    unfolding search1 by (simp add: nw low inc includesStr_iff[symmetric])
  have c: "filteredAndSortedTodos asciiLower (\<lambda>x y. 0) [taskA, taskB, dueTask] (ascii ''REP'')
       StatusAll PriorityAll SortPriority asc = [dueTask]"
    unfolding search2 by (simp add: nw low inc includesStr_iff[symmetric])
  from a b c show ?thesis by blast
qed

subsection \<open>C4: the week window\<close>

text \<open>
  C4. For every instant, the week window starts at the local midnight that lies
  6 days before the instant's day when that day is a Sunday and (weekday - 1) days
  before it otherwise. That start is a Monday, at 00:00:00.000, not after the instant
  and less than seven days before it. The window ends 6 days and 23:59:59.999 after
  its start, on a Sunday. For an instant on a Wednesday the start is the midnight two
  days before the instant's day and the end is 23:59:59.999 four days after it.
\<close>

theorem week_window:
  "(let monday = fst (weekWindow koreaTime); sunday = snd (weekWindow koreaTime) in
      monday = setHours koreaTime 0 0 0 0
                 - (if getDay koreaTime = 0 then 6 else getDay koreaTime - 1) * msPerDay
    \<and> getDay monday = 1 \<and> monday mod msPerDay = 0
    \<and> monday \<le> koreaTime \<and> koreaTime < monday + 7 * msPerDay
    \<and> sunday = monday + 6 * msPerDay + (23 * 3600000 + 59 * 60000 + 59 * 1000 + 999)
    \<and> getDay sunday = 0
    \<and> (getDay koreaTime = 3 \<longrightarrow>
          monday = setHours koreaTime 0 0 0 0 - 2 * msPerDay \<and>
          sunday = setHours koreaTime 0 0 0 0 + 4 * msPerDay
                     + (23 * 3600000 + 59 * 60000 + 59 * 1000 + 999)))"
proof -
  define d where "d = koreaTime div msPerDay"
  define off where "off = (if getDay koreaTime = 0 then 6 else getDay koreaTime - 1)"
  have gd: "getDay koreaTime = (d + 4) mod 7" by (simp add: getDay_def d_def)
  have w: "weekWindow koreaTime = ((d - off) * msPerDay, (d - off + 6) * msPerDay + 86399999)"
    by (simp add: weekWindow_eq d_def off_def)
  have mid: "setHours koreaTime 0 0 0 0 = d * msPerDay" by (simp add: midnight_eq d_def)
  have off_range: "0 \<le> off" "off \<le> 6" unfolding off_def gd by presburger+
  have off_mod: "(d - off + 4) mod 7 = 1" unfolding off_def gd by presburger
  have "koreaTime = d * msPerDay + koreaTime mod msPerDay" by (simp add: d_def)
  moreover have "0 \<le> koreaTime mod msPerDay" "koreaTime mod msPerDay < msPerDay"
    by (simp_all add: msPerDay_def)
  ultimately have lo: "d * msPerDay \<le> koreaTime" "koreaTime < d * msPerDay + msPerDay"
    by linarith+
  have c1: "fst (weekWindow koreaTime) = setHours koreaTime 0 0 0 0 - off * msPerDay"
    by (simp add: w mid algebra_simps)
  have c2: "getDay (fst (weekWindow koreaTime)) = 1"
    by (simp add: w getDay_def day_of_multiple off_mod)
  have c3: "fst (weekWindow koreaTime) mod msPerDay = 0" by (simp add: w)
  have c4: "fst (weekWindow koreaTime) \<le> koreaTime"
  proof -
    have "(d - off) * msPerDay \<le> d * msPerDay" using off_range by (simp add: msPerDay_def)
    with lo show ?thesis unfolding w fst_conv by linarith
  qed
  have c5: "koreaTime < fst (weekWindow koreaTime) + 7 * msPerDay"
  proof -
    have "d * msPerDay + msPerDay \<le> (d - off) * msPerDay + 7 * msPerDay"
      using off_range by (simp add: msPerDay_def algebra_simps)
    with lo show ?thesis unfolding w fst_conv by linarith
  qed
  have c6: "snd (weekWindow koreaTime) = fst (weekWindow koreaTime) + 6 * msPerDay
              + (23 * 3600000 + 59 * 60000 + 59 * 1000 + 999)"
    by (simp add: w algebra_simps)
  have sd: "((d - off + 6) * msPerDay + 86399999) div msPerDay = d - off + 6"
    by (simp add: msPerDay_def)
  have c7: "getDay (snd (weekWindow koreaTime)) = 0"
    using off_mod by (simp add: w getDay_def sd) presburger
  have c8: "getDay koreaTime = 3 \<longrightarrow>
          fst (weekWindow koreaTime) = setHours koreaTime 0 0 0 0 - 2 * msPerDay \<and>
          snd (weekWindow koreaTime) = setHours koreaTime 0 0 0 0 + 4 * msPerDay
                     + (23 * 3600000 + 59 * 60000 + 59 * 1000 + 999)"
    by (simp add: w mid off_def algebra_simps)
  from c1 c2 c3 c4 c5 c6 c7 c8 show ?thesis
    unfolding Let_def off_def by blast
qed

text \<open>Wednesday 4 November 2026, 10:30: the week runs from Monday 2 November, 00:00:00.000,
  to Sunday 8 November, 23:59:59.999.\<close>

theorem week_window_witness:
  "getDay 1793788200000 = 3 \<and>
   weekWindow 1793788200000 = (1793577600000, 1794182399999) \<and>
   getDay 1793577600000 = 1 \<and> getDay 1794182399999 = 0"
  using week_window[of 1793788200000]
  by (simp add: Let_def getDay_def setHours_def msPerDay_def prod_eq_iff)

subsection \<open>C5: per-category counts\<close>

text \<open>
  C5, as the code has it. For a label that is not the name of a property inherited
  from \<^verbatim>\<open>Object.prototype\<close>, the total count of the label is the number of times the
  tasks list it, each task counted once for every occurrence of the label in its
  category array, and the completed count is the same number over the completed
  tasks; the label has an entry exactly when some task lists it. Where no category
  array has a duplicate, each task that lists the label counts exactly once. A
  completed task with the categories [work, personal] raises the total and the
  completed counter of each of the two labels by exactly one.
\<close>

theorem category_counts:
  "cat \<notin> set objectPrototypeKeys \<longrightarrow>
     totalOf (categoryStats todos) cat = sum_list (map (occurrences cat) todos)
   \<and> completedOf (categoryStats todos) cat
       = sum_list (map (occurrences cat) (filter completed todos))
   \<and> (cat \<in> dom (categoryStats todos) \<longleftrightarrow>
        (\<exists>t \<in> set todos. \<exists>cats. category t = Some cats \<and> cat \<in> set cats))
   \<and> ((\<forall>t \<in> set todos. \<forall>cats. category t = Some cats \<longrightarrow> distinct cats) \<longrightarrow>
        totalOf (categoryStats todos) cat
          = length (filter (\<lambda>t. \<exists>cats. category t = Some cats \<and> cat \<in> set cats) todos)
      \<and> completedOf (categoryStats todos) cat
          = length (filter (\<lambda>t. completed t \<and> (\<exists>cats. category t = Some cats \<and> cat \<in> set cats))
                      todos))
   \<and> (category task = Some [categoryWork, categoryPersonal] \<and> completed task \<and>
       (cat = categoryWork \<or> cat = categoryPersonal) \<longrightarrow>
        totalOf (categoryStats (todos @ [task])) cat = totalOf (categoryStats todos) cat + 1
      \<and> completedOf (categoryStats (todos @ [task])) cat
          = completedOf (categoryStats todos) cat + 1)"
proof (intro impI conjI)
  assume ok: "cat \<notin> set objectPrototypeKeys"
  show tot: "totalOf (categoryStats todos) cat = sum_list (map (occurrences cat) todos)"
    using fold_categoryStep_total[OF ok, of todos Map.empty]
    by (simp add: categoryStats_fold totalOf_def)
  show com: "completedOf (categoryStats todos) cat
       = sum_list (map (occurrences cat) (filter completed todos))"
    using fold_categoryStep_completed[OF ok, of todos Map.empty]
    by (simp add: categoryStats_fold completedOf_def)
  show "cat \<in> dom (categoryStats todos) \<longleftrightarrow>
        (\<exists>t \<in> set todos. \<exists>cats. category t = Some cats \<and> cat \<in> set cats)"
  proof -
    have "\<And>t. 0 < occurrences cat t \<longleftrightarrow> (\<exists>cats. category t = Some cats \<and> cat \<in> set cats)"
      by (auto simp: occurrences_def count_list_pos_iff split: option.splits)
    with fold_categoryStep_dom[OF ok, of todos Map.empty] show ?thesis
      by (simp add: categoryStats_fold)
  qed
  {
    assume d: "\<forall>t \<in> set todos. \<forall>cats. category t = Some cats \<longrightarrow> distinct cats"
    have m: "map (occurrences cat) todos
          = map (\<lambda>t. if \<exists>cats. category t = Some cats \<and> cat \<in> set cats then 1 else 0) todos"
      using d by (intro map_cong refl occurrences_distinct) blast
    have mc: "map (occurrences cat) (filter completed todos)
          = map (\<lambda>t. if \<exists>cats. category t = Some cats \<and> cat \<in> set cats then 1 else 0)
              (filter completed todos)"
      using d by (intro map_cong refl occurrences_distinct) auto
    show "totalOf (categoryStats todos) cat
          = length (filter (\<lambda>t. \<exists>cats. category t = Some cats \<and> cat \<in> set cats) todos)"
      unfolding tot m by (rule sum_list_indicator)
    have "completedOf (categoryStats todos) cat
          = length (filter (\<lambda>t. \<exists>cats. category t = Some cats \<and> cat \<in> set cats)
                      (filter completed todos))"
      unfolding com mc by (rule sum_list_indicator)
    then show "completedOf (categoryStats todos) cat
          = length (filter (\<lambda>t. completed t \<and> (\<exists>cats. category t = Some cats \<and> cat \<in> set cats))
                      todos)"
      by (simp add: conj_commute)
  }
  {
    assume h: "category task = Some [categoryWork, categoryPersonal] \<and> completed task \<and>
       (cat = categoryWork \<or> cat = categoryPersonal)"
    have ne: "categoryWork \<noteq> categoryPersonal"
      by (simp add: categoryWork_def categoryPersonal_def)
    from h ne have occ: "occurrences cat task = 1"
      by (auto simp: occurrences_def)
    have app: "categoryStats (todos @ [task]) = categoryStep task (categoryStats todos)"
      by (simp add: categoryStats_fold)
    show "totalOf (categoryStats (todos @ [task])) cat = totalOf (categoryStats todos) cat + 1"
      unfolding app using categoryStep_total[OF ok, of task "categoryStats todos"] occ by simp
    show "completedOf (categoryStats (todos @ [task])) cat
          = completedOf (categoryStats todos) cat + 1"
      unfolding app using categoryStep_completed[OF ok, of task "categoryStats todos"] occ h
      by simp
  }
qed

theorem category_counts_witness:
  "totalOf (categoryStats [taskA, twoCategoryTask]) categoryWork = 1 \<and>
   completedOf (categoryStats [taskA, twoCategoryTask]) categoryWork = 1 \<and>
   totalOf (categoryStats [taskA, twoCategoryTask]) categoryPersonal = 1 \<and>
   completedOf (categoryStats [taskA, twoCategoryTask]) categoryPersonal = 1"
  using category_counts[of categoryWork "[taskA]" twoCategoryTask]
    category_counts[of categoryPersonal "[taskA]" twoCategoryTask]
    labels_not_inherited
  by (simp add: twoCategoryTask_def taskA_def occurrences_def)

text \<open>
  C5 as stated fails on duplicates: one completed task whose category array lists
  the label work twice gives that label a total of 2 and a completed count of 2.
\<close>

theorem category_duplicate_counterexample:
  "categoryStats [duplicateTask] categoryWork = Some \<lparr>stat_total = 2, stat_completed = 2\<rparr>
   \<and> category duplicateTask = Some [categoryWork, categoryWork]"
  by (simp add: categoryStats_def categoryStep_def duplicateTask_def countCategory_def Let_def
      labels_not_inherited)

subsection \<open>C6: completion rate\<close>

text \<open>
  C6. For every task list the completion rate, on the page and in the statistics of
  the analysis endpoint alike, is the number of completed tasks divided by the number
  of tasks, times 100; it lies between 0 and 100; and it is 0 exactly when the list is
  empty or has no completed task.
\<close>

theorem completion_rate:
  "(todosList \<noteq> [] \<longrightarrow>
      calculateCompletionRate todosList =
        real (length (filter completed todosList)) / real (length todosList) * 100)
   \<and> (todosList = [] \<longrightarrow> calculateCompletionRate todosList = 0)
   \<and> completionRate (statistics todosList) = calculateCompletionRate todosList
   \<and> 0 \<le> calculateCompletionRate todosList
   \<and> calculateCompletionRate todosList \<le> 100
   \<and> (calculateCompletionRate todosList = 0 \<longleftrightarrow>
        todosList = [] \<or> (\<forall>t \<in> set todosList. \<not> completed t))"
proof (cases "todosList = []")
  case True
  then show ?thesis by (simp add: calculateCompletionRate_def statistics_def)
next
  case False
  then have n: "0 < length todosList" by simp
  have c: "length (filter completed todosList) \<le> length todosList" by simp
  have z: "length (filter completed todosList) = 0 \<longleftrightarrow> (\<forall>t \<in> set todosList. \<not> completed t)"
    by (simp add: filter_empty_conv)
  from rate_bounds[OF c n] z False show ?thesis
    by (simp add: calculateCompletionRate_def statistics_def Let_def)
qed

theorem completion_rate_witness:
  "calculateCompletionRate [taskA, taskB] = 50 \<and>
   completionRate (statistics [taskA, taskB]) = 50 \<and>
   calculateCompletionRate [taskA] = 0 \<and> calculateCompletionRate [] = 0"
  using completion_rate[of "[taskA, taskB]"] completion_rate[of "[taskA]"]
    completion_rate[of "[]"]
  by (simp add: taskA_def taskB_def)

subsection \<open>C7: validation of the input text\<close>

text \<open>
  C7, as the code has it. With the service credential missing the endpoint answers 500
  for every body. With the credential configured, an input that is not a string is
  rejected with 400 as not a string, and so is the empty string. The normalised text
  (ends trimmed, every run of white space collapsed to one space) is the words of the
  input joined by single spaces, and it is empty exactly when the input has only
  white space. Lengths count UTF-16 code units, as \<^verbatim>\<open>String.length\<close> does. The endpoint
  answers 400: as empty input for a non-empty input whose normalised text is empty; as
  too short for a normalised text of length 1; as too long, with the length of the
  normalised text in the error, for a normalised text of length above 500. A
  normalised text of length 2 to 500 is not rejected: it goes on to the prompt.
\<close>

theorem input_validation:
  "((apiKey = None \<or> apiKey = Some []) \<longrightarrow>
      POST_generate_todo apiKey body = Rejected MissingApiKey 500)
   \<and> (apiKey = Some k \<and> k \<noteq> [] \<longrightarrow>
        POST_generate_todo apiKey (JsonObject NotString) = Rejected NotAString 400
      \<and> (n = replaceWhiteSpaceRuns (trim input) \<longrightarrow>
            n = joinWords (wordsOf input)
          \<and> (n = [] \<longleftrightarrow> (\<forall>c \<in> set input. isWhiteSpace c))
          \<and> (input = [] \<longrightarrow>
               POST_generate_todo apiKey (JsonObject (JSString input)) = Rejected NotAString 400)
          \<and> (input \<noteq> [] \<and> n = [] \<longrightarrow>
               POST_generate_todo apiKey (JsonObject (JSString input)) = Rejected EmptyInput 400)
          \<and> (length n = 1 \<longrightarrow>
               POST_generate_todo apiKey (JsonObject (JSString input)) = Rejected TooShort 400)
          \<and> (500 < length n \<longrightarrow>
               POST_generate_todo apiKey (JsonObject (JSString input))
                 = Rejected (TooLong (length n)) 400)
          \<and> (2 \<le> length n \<and> length n \<le> 500 \<longrightarrow>
               POST_generate_todo apiKey (JsonObject (JSString input)) = Proceed n)))
   \<and> (isWhiteSpace c \<longleftrightarrow>
        c \<in> set [0x09, 0x0A, 0x0B, 0x0C, 0x0D, 0x20, 0xA0, 0x1680, 0x2028, 0x2029, 0x202F,
                  0x205F, 0x3000, 0xFEFF] \<or> (0x2000 \<le> c \<and> c \<le> 0x200A))"
proof (intro conjI impI)
  assume "apiKey = None \<or> apiKey = Some []"
  then show "POST_generate_todo apiKey body = Rejected MissingApiKey 500"
    by (auto simp: POST_generate_todo_def)
next
  assume key: "apiKey = Some k \<and> k \<noteq> []"
  then show "POST_generate_todo apiKey (JsonObject NotString) = Rejected NotAString 400"
    by (simp add: POST_generate_todo_def)
next
  show "isWhiteSpace c \<longleftrightarrow>
        c \<in> set [0x09, 0x0A, 0x0B, 0x0C, 0x0D, 0x20, 0xA0, 0x1680, 0x2028, 0x2029, 0x202F,
                  0x205F, 0x3000, 0xFEFF] \<or> (0x2000 \<le> c \<and> c \<le> 0x200A)"
    by (rule isWhiteSpace_iff)
next
  assume key: "apiKey = Some k \<and> k \<noteq> []" and nd: "n = replaceWhiteSpaceRuns (trim input)"
  show "n = joinWords (wordsOf input)" using nd by (simp add: normalize_words)
  show e: "n = [] \<longleftrightarrow> (\<forall>c \<in> set input. isWhiteSpace c)"
    using nd by (simp add: normalized_empty_iff)
  have ne: "n \<noteq> [] \<Longrightarrow> input \<noteq> []" using e by auto
  {
    assume "input = []"
    then show "POST_generate_todo apiKey (JsonObject (JSString input)) = Rejected NotAString 400"
      using key by (simp add: POST_generate_todo_def)
  }
  {
    assume "input \<noteq> [] \<and> n = []"
    then show "POST_generate_todo apiKey (JsonObject (JSString input)) = Rejected EmptyInput 400"
      using key nd by (auto simp: POST_generate_todo_def Let_def)
  }
  {
    assume l: "length n = 1"
    then have "n \<noteq> []" by auto
    with ne have "input \<noteq> []" by simp
    with key nd l
    show "POST_generate_todo apiKey (JsonObject (JSString input)) = Rejected TooShort 400"
      by (auto simp: POST_generate_todo_def Let_def)
  }
  {
    assume l: "500 < length n"
    then have "n \<noteq> []" by auto
    with ne have "input \<noteq> []" by simp
    with key nd l
    show "POST_generate_todo apiKey (JsonObject (JSString input))
            = Rejected (TooLong (length n)) 400"
      by (auto simp: POST_generate_todo_def Let_def)
  }
  {
    assume l: "2 \<le> length n \<and> length n \<le> 500"
    then have "n \<noteq> []" by auto
    with ne have "input \<noteq> []" by simp
    with key nd l
    show "POST_generate_todo apiKey (JsonObject (JSString input)) = Proceed n"
      by (auto simp: POST_generate_todo_def Let_def)
  }
qed

text \<open>No credential; an input that is not a string; white space only; one letter
  between spaces; 501 letters; two words with irregular spacing.\<close>

theorem input_validation_witness:
  "POST_generate_todo None (JsonObject (JSString (ascii ''buy milk'')))
     = Rejected MissingApiKey 500 \<and>
   POST_generate_todo (Some (ascii ''key'')) (JsonObject NotString)
     = Rejected NotAString 400 \<and>
   POST_generate_todo (Some (ascii ''key'')) (JsonObject (JSString (ascii ''   '')))
     = Rejected EmptyInput 400 \<and>
   POST_generate_todo (Some (ascii ''key'')) (JsonObject (JSString (ascii '' a '')))
     = Rejected TooShort 400 \<and>
   POST_generate_todo (Some (ascii ''key'')) (JsonObject (JSString (replicate 501 0x61)))
     = Rejected (TooLong 501) 400 \<and>
   POST_generate_todo (Some (ascii ''key'')) (JsonObject (JSString (ascii '' ab   cd '')))
     = Proceed (ascii ''ab cd'')"
  using
    input_validation[of None "JsonObject (JSString (ascii ''buy milk''))"]
    input_validation[of "Some (ascii ''key'')" _ "ascii ''key''" "[]" "ascii ''   ''"]
    input_validation[of "Some (ascii ''key'')" _ "ascii ''key''" "ascii ''a''" "ascii '' a ''"]
    input_validation[of "Some (ascii ''key'')" _ "ascii ''key''" "replicate 501 0x61"
      "replicate 501 0x61"]
    input_validation[of "Some (ascii ''key'')" _ "ascii ''key''" "ascii ''ab cd''"
      "ascii '' ab   cd ''"]
  by (simp add: normalize_samples) (simp add: ascii_def)

text \<open>
  C7 as stated fails in three places. The empty string is empty after normalisation,
  and the guard in front of the normalisation rejects it as not a string, not as empty
  input. With the credential missing the handler answers 500 before it reads the
  input. And one character outside the Basic Multilingual Plane (here U+1F600, the
  code units D83D DE00) has length 2, so it is not rejected as too short.
\<close>

theorem input_validation_counterexample:
  "POST_generate_todo (Some (ascii ''key'')) (JsonObject (JSString [])) = Rejected NotAString 400
   \<and> replaceWhiteSpaceRuns (trim []) = []
   \<and> POST_generate_todo None (JsonObject (JSString (ascii ''   ''))) = Rejected MissingApiKey 500
   \<and> POST_generate_todo (Some (ascii ''key'')) (JsonObject (JSString [0xD83D, 0xDE00]))
       = Proceed [0xD83D, 0xDE00]"
  by (simp add: POST_generate_todo_def trim_def ascii_def isWhiteSpace_def)

subsection \<open>C8: post-processing of the due date\<close>




subsection \<open>C9: the empty analysis request\<close>

text \<open>
  C9, as the code has it. When the service credential is configured, every analysis
  request whose task array is empty and whose period is \<open>today\<close> or \<open>week\<close> is
  answered with status 200 by the fixed response: the empty summary of the period, no
  urgent task, the one encouragement insight, no recommendation; the generative
  service is not called.
\<close>

theorem empty_state:
  "apiKey = Some k \<and> k \<noteq> [] \<and> body_todos req = Some [] \<and>
   (body_period req = Some (ascii ''today'') \<or> body_period req = Some (ascii ''week'')) \<longrightarrow>
     POST_analyze_todos apiKey (JsonObject req) =
       JsonResponse
         \<lparr>summary = (if body_period req = Some (ascii ''today'') then emptySummaryToday
                     else emptySummaryWeek),
          urgentTasks = [], insights = [emptyInsight], recommendations = []\<rparr> 200
     \<and> (\<forall>p s. POST_analyze_todos apiKey (JsonObject req) \<noteq> GenerateObject p s)"
  by (auto simp: POST_analyze_todos_def)

theorem empty_state_witness:
  "POST_analyze_todos (Some (ascii ''key''))
     (JsonObject \<lparr>body_todos = Some [], body_period = Some (ascii ''week'')\<rparr>) =
   JsonResponse \<lparr>summary = emptySummaryWeek, urgentTasks = [], insights = [emptyInsight],
     recommendations = []\<rparr> 200"
  using empty_state[of "Some (ascii ''key'')" "ascii ''key''"
      "\<lparr>body_todos = Some [], body_period = Some (ascii ''week'')\<rparr>"]
  by (simp add: ascii_def)

text \<open>
  C9 as stated fails where the credential is missing: the handler tests the credential
  first and answers 500, also for an empty task array with a valid period.
\<close>

theorem empty_state_counterexample:
  "POST_analyze_todos None
     (JsonObject \<lparr>body_todos = Some [], body_period = Some (ascii ''today'')\<rparr>) =
   ErrorResponse MissingApiKey 500"
  by (simp add: POST_analyze_todos_def)

subsection \<open>C10: membership in the analysis window\<close>

text \<open>
  C10. A task is in the subset built for the analysis of \<open>today\<close> or of \<open>week\<close> if and
  only if it is in the task list and its created timestamp lies within the window,
  boundaries included, or it has a due timestamp that lies within the window. A task
  without a due timestamp is in the subset exactly when its created timestamp lies
  within the window.
\<close>

theorem window_membership:
  "(todo \<in> set (filteredTodos period koreaTime todos) \<longleftrightarrow>
      todo \<in> set todos \<and>
      (let w = (if period = today then todayWindow koreaTime else weekWindow koreaTime)
       in (fst w \<le> created_date todo \<and> created_date todo \<le> snd w) \<or>
          (\<exists>d. due_date todo = Some d \<and> fst w \<le> d \<and> d \<le> snd w)))
   \<and> (due_date todo = None \<longrightarrow>
        (todo \<in> set (filteredTodos period koreaTime todos) \<longleftrightarrow>
           todo \<in> set todos \<and>
           (let w = (if period = today then todayWindow koreaTime else weekWindow koreaTime)
            in fst w \<le> created_date todo \<and> created_date todo \<le> snd w)))"
  by (auto simp: filteredTodos_def inWindow_def Let_def split: option.splits)

text \<open>On 4 November 2026 a task due that day is in the subset of \<open>today\<close>; a task created
  long before and without a due date is not.\<close>

theorem window_membership_witness:
  "dueTask \<in> set (filteredTodos today 1793788200000 [noDueTask, dueTask]) \<and>
   noDueTask \<notin> set (filteredTodos today 1793788200000 [noDueTask, dueTask]) \<and>
   todayWindow 1793788200000 = (1793750400000, 1793836799999)"
  using window_membership[of dueTask today 1793788200000 "[noDueTask, dueTask]"]
    window_membership[of noDueTask today 1793788200000 "[noDueTask, dueTask]"]
  by (simp add: todayWindow_def setHours_def msPerDay_def Let_def dueTask_def noDueTask_def)

end
